theory Spec2Isabelle
  imports Complex_Main "HOL-Library.AList"
begin

section \<open>Shared vocabulary of player\_proxy.py\<close>

text \<open>
  The classes \<^verbatim>\<open>CAPS\<close>, \<^verbatim>\<open>REPEAT\<close> and \<^verbatim>\<open>STATUS\<close> hold integer constants.
  A capability is kept as the integer the source gives it (\<^verbatim>\<open>1 << k\<close>); a capability
  set is a Python \<^verbatim>\<open>set\<close> of such integers, as the docstring of \<^verbatim>\<open>get_caps\<close> says.
\<close>

definition NEXT :: int where "NEXT = 1"
definition PREV :: int where "PREV = 2"
definition PAUSE :: int where "PAUSE = 4"
definition PLAY :: int where "PLAY = 8"
definition SEEK :: int where "SEEK = 16"
definition PROVIDE_METADATA :: int where "PROVIDE_METADATA = 32"

datatype repeat = NONE | TRACK | ALL

datatype status = PLAYING | PAUSED | STOPPED

text \<open>
  Python exceptions that the modelled code raises or lets through.
  \<^verbatim>\<open>BaseError msg cause\<close> is \<^verbatim>\<open>errors.BaseError(msg)\<close> with its \<^verbatim>\<open>__cause__\<close>
  (set by \<^verbatim>\<open>raise_from\<close>); \<^verbatim>\<open>ConnectPlayerError\<close> keeps its two constructor arguments.
\<close>

datatype exn =
    NotImplementedError
  | TypeError string
  | AttributeError string
  | OtherError string
  | BaseError string "exn option"
  | ConnectPlayerError string string

text \<open>
  A D-Bus double (signature \<^verbatim>\<open>d\<close>) as Python receives it: a finite value, an infinity
  or a NaN. \<^verbatim>\<open>float_lt\<close> is the comparison \<^verbatim>\<open><\<close> of Python floats: every comparison
  with a NaN is false.
\<close>

datatype pyfloat = Finite real | PosInf | NegInf | NaN

fun float_lt :: "pyfloat \<Rightarrow> pyfloat \<Rightarrow> bool" where
  "float_lt NaN _ = False"
| "float_lt _ NaN = False"
| "float_lt (Finite a) (Finite b) = (a < b)"
| "float_lt (Finite a) PosInf = True"
| "float_lt (Finite a) NegInf = False"
| "float_lt PosInf _ = False"
| "float_lt NegInf NegInf = False"
| "float_lt NegInf _ = True"

definition float_gt :: "pyfloat \<Rightarrow> pyfloat \<Rightarrow> bool" where
  "float_gt a b = float_lt b a"

subsection \<open>Rendering an integer with \<^verbatim>\<open>'%s'\<close>\<close>

definition digit :: "nat \<Rightarrow> char" where
  "digit d = (if d = 0 then CHR ''0'' else if d = 1 then CHR ''1''
     else if d = 2 then CHR ''2'' else if d = 3 then CHR ''3''
     else if d = 4 then CHR ''4'' else if d = 5 then CHR ''5''
     else if d = 6 then CHR ''6'' else if d = 7 then CHR ''7''
     else if d = 8 then CHR ''8'' else CHR ''9'')"

fun str_nat :: "nat \<Rightarrow> string" where
  "str_nat n = (if n < 10 then [digit n] else str_nat (n div 10) @ [digit (n mod 10)])"

declare str_nat.simps [simp del]

definition str_int :: "int \<Rightarrow> string" where
  "str_int i = (if i < 0 then CHR ''-'' # str_nat (nat (- i)) else str_nat (nat i))"

section \<open>The Timer\<close>

text \<open>
  Modelled from the spec: the class \<^verbatim>\<open>Timer\<close> of the module \<^verbatim>\<open>timer\<close>, which
  player\_proxy.py imports and which is not among the sources. The spec gives it a run
  state (running, paused, stopped) set by \<^verbatim>\<open>play()\<close>, \<^verbatim>\<open>pause()\<close>, \<^verbatim>\<open>stop()\<close> and
  a property \<^verbatim>\<open>time\<close> in integer milliseconds: while running, the last set position
  plus the wall-clock time elapsed since the last transition or set; frozen otherwise.
  The wall clock is a parameter \<open>clk\<close> (milliseconds) of every operation.
\<close>

datatype run_state = Running | Paused | Stopped

record timer =
  run :: run_state
  base :: int
  since :: int

definition Timer :: "int \<Rightarrow> timer" where
  "Timer clk = \<lparr>run = Stopped, base = 0, since = clk\<rparr>"

definition timer_time :: "int \<Rightarrow> timer \<Rightarrow> int" where
  "timer_time clk t = (if run t = Running then base t + (clk - since t) else base t)"

definition timer_set_time :: "int \<Rightarrow> int \<Rightarrow> timer \<Rightarrow> timer" where
  "timer_set_time clk v t = t\<lparr>base := v, since := clk\<rparr>"

definition timer_transition :: "run_state \<Rightarrow> int \<Rightarrow> timer \<Rightarrow> timer" where
  "timer_transition r clk t = \<lparr>run = r, base = timer_time clk t, since = clk\<rparr>"

definition timer_play :: "int \<Rightarrow> timer \<Rightarrow> timer" where
  "timer_play = timer_transition Running"

definition timer_pause :: "int \<Rightarrow> timer \<Rightarrow> timer" where
  "timer_pause = timer_transition Paused"

definition timer_stop :: "int \<Rightarrow> timer \<Rightarrow> timer" where
  "timer_stop = timer_transition Stopped"

section \<open>BasePlayer: the session\<close>

text \<open>
  A \<^verbatim>\<open>Metadata\<close> object is represented by the dictionary its \<^verbatim>\<open>to_mpris2()\<close>
  returns (the class is not among the sources); a dictionary with string keys is an
  association list updated with \<^const>\<open>AList.update\<close>.
\<close>

datatype mpris_value = MString string | MInt int | MStrings "string list"

type_synonym mpris_dict = "(string \<times> mpris_value) list"

text \<open>
  What the derived class answers during one operation of the session. The methods that
  \<^verbatim>\<open>BasePlayer\<close> leaves to the derived class either return or raise; a setter returns
  \<open>None\<close> when it returns normally.
\<close>

record backend =
  get_status :: "exn + status"
  get_metadata :: "exn + mpris_dict"
  get_position :: "exn + int"
  get_caps :: "exn + int set"
  set_position :: "int \<Rightarrow> exn option"
  set_volume :: "pyfloat \<Rightarrow> exn option"

text \<open>The value a property of the bus object is assigned.\<close>

datatype prop_value = PBool bool | PDict mpris_dict | PStatus status

text \<open>
  What a session does that is visible outside it: the calls it makes into the derived
  class, in order, and what it puts on the bus. Assigning a property declared with
  \<^verbatim>\<open>dbus_property\<close> runs the setter of the source and announces the change on the bus
  (\<^verbatim>\<open>dbusext.service\<close> is not among the sources); \<open>PropertySet\<close> records the assignment.
\<close>

datatype effect =
    Call_get_status
  | Call_get_metadata
  | Call_get_position
  | Call_get_caps
  | Call_set_position int
  | Call_set_volume pyfloat
  | PropertySet string prop_value

text \<open>
  The only callable the source ever passes to \<^verbatim>\<open>set_disconnect_cb\<close> is the bound method
  \<^verbatim>\<open>_player_lost_cb\<close> of the proxy.
\<close>

datatype callback = Player_lost_cb

record player =
  object_path :: string
  name :: string
  proxy :: string
  disconnect_cb :: "callback option"
  connected :: bool
  timer :: "timer option"
  status :: "status option"
  loop_status :: "repeat option"
  metadata :: "mpris_dict option"
  current_trackid :: int
  caps :: "int set option"
  shuffle :: "bool option"
  exported :: bool
  trace :: "effect list"

text \<open>
  \<^verbatim>\<open>BasePlayer.__init__(proxy, name)\<close>. The constant
  \<^verbatim>\<open>PLAYER_PROXY_OBJECT_PATH_PREFIX\<close> of the module \<^verbatim>\<open>consts\<close> is the parameter
  \<open>prefix\<close>; \<open>exported\<close> says that the object is on the bus connection, which the
  constructor of \<^verbatim>\<open>dbus.service.Object\<close> does when given \<^verbatim>\<open>conn\<close> and \<^verbatim>\<open>object_path\<close>.
\<close>

definition BasePlayer :: "string \<Rightarrow> string \<Rightarrow> string \<Rightarrow> player" where
  "BasePlayer prefix proxy_name nm =
     \<lparr>object_path = prefix @ proxy_name @ ''/'' @ nm,
      name = nm,
      proxy = proxy_name,
      disconnect_cb = None,
      connected = True,
      timer = None,
      status = None,
      loop_status = None,
      metadata = None,
      current_trackid = 0,
      caps = None,
      shuffle = None,
      exported = True,
      trace = []\<rparr>"

definition set_disconnect_cb :: "callback \<Rightarrow> player \<Rightarrow> player" where
  "set_disconnect_cb cb p = p\<lparr>disconnect_cb := Some cb\<rparr>"

text \<open>
  \<^verbatim>\<open>disconnect\<close> returns the session and the callbacks it invoked on itself, in order;
  the caller that owns the registry runs them (see \<open>player_disconnect\<close> below).
\<close>

definition disconnect :: "player \<Rightarrow> player \<times> callback list" where
  "disconnect p =
     (if connected p then
        (let p1 = p\<lparr>connected := False\<rparr>;
             p2 = p1\<lparr>exported := False\<rparr>
         in case disconnect_cb p2 of
              Some cb \<Rightarrow> (p2, [cb])
            | None \<Rightarrow> (p2, []))
      else (p, []))"

definition called :: "effect \<Rightarrow> player \<Rightarrow> player" where
  "called c p = p\<lparr>trace := trace p @ [c]\<rparr>"

definition setup_timer_status :: "int \<Rightarrow> status \<Rightarrow> player \<Rightarrow> player" where
  "setup_timer_status clk st p =
     (case timer p of
        None \<Rightarrow> p
      | Some t \<Rightarrow>
          p\<lparr>timer := Some (case st of
                             PAUSED \<Rightarrow> timer_pause clk t
                           | PLAYING \<Rightarrow> timer_play clk t
                           | STOPPED \<Rightarrow> timer_stop clk t)\<rparr>)"

definition get_cached_status :: "backend \<Rightarrow> player \<Rightarrow> (exn + status) \<times> player" where
  "get_cached_status b p =
     (case status p of
        None \<Rightarrow>
          (case get_status b of
             Inl e \<Rightarrow> (Inl e, called Call_get_status p)
           | Inr st \<Rightarrow> (Inr st, (called Call_get_status p)\<lparr>status := Some st\<rparr>))
      | Some st \<Rightarrow> (Inr st, p))"

definition setup_timer :: "backend \<Rightarrow> int \<Rightarrow> player \<Rightarrow> (exn + unit) \<times> player" where
  "setup_timer b clk p =
     (case timer p of
        None \<Rightarrow>
          (let p1 = p\<lparr>timer := Some (Timer clk)\<rparr>
           in case get_cached_status b p1 of
                (Inl e, p2) \<Rightarrow> (Inl e, p2)
              | (Inr st, p2) \<Rightarrow> (Inr (), setup_timer_status clk st p2))
      | Some t \<Rightarrow> (Inr (), p))"

text \<open>
  \<^verbatim>\<open>_get_cached_position\<close>. Where the source reads or assigns \<^verbatim>\<open>self._timer.time\<close>
  the model looks the timer up again; on \<^verbatim>\<open>None\<close> Python raises AttributeError.
\<close>

definition timer_time_of :: "int \<Rightarrow> player \<Rightarrow> (exn + int) \<times> player" where
  "timer_time_of clk p =
     (case timer p of
        None \<Rightarrow> (Inl (AttributeError ''time''), p)
      | Some t \<Rightarrow> (Inr (timer_time clk t), p))"

definition get_cached_position :: "backend \<Rightarrow> int \<Rightarrow> player \<Rightarrow> (exn + int) \<times> player" where
  "get_cached_position b clk p =
     (case timer p of
        Some t \<Rightarrow> timer_time_of clk p
      | None \<Rightarrow>
          (case setup_timer b clk p of
             (Inl e, p1) \<Rightarrow> (Inl e, p1)
           | (Inr _, p1) \<Rightarrow>
               (case get_cached_status b p1 of
                  (Inl e, p2) \<Rightarrow> (Inl e, p2)
                | (Inr st, p2) \<Rightarrow>
                    (if st \<noteq> STOPPED then
                       (case get_position b of
                          Inl e \<Rightarrow> (Inl e, called Call_get_position p2)
                        | Inr v \<Rightarrow>
                            (let p3 = called Call_get_position p2
                             in case timer p3 of
                                  None \<Rightarrow> (Inl (AttributeError ''time''), p3)
                                | Some t \<Rightarrow>
                                    timer_time_of clk (p3\<lparr>timer := Some (timer_set_time clk v t)\<rparr>)))
                     else timer_time_of clk p2))))"

definition get_current_trackid :: "player \<Rightarrow> string" where
  "get_current_trackid p = ''/'' @ str_int (current_trackid p)"

definition make_metadata :: "mpris_dict \<Rightarrow> player \<Rightarrow> mpris_dict" where
  "make_metadata md p = AList.update ''mpris:trackid'' (MString (get_current_trackid p)) md"

text \<open>Calling a setter of the derived class: the call is recorded, then it returns or raises.\<close>

definition call_setter :: "effect \<Rightarrow> exn option \<Rightarrow> player \<Rightarrow> (exn + unit) \<times> player" where
  "call_setter c r p = ((case r of None \<Rightarrow> Inr () | Some e \<Rightarrow> Inl e), called c p)"

definition Seek :: "backend \<Rightarrow> int \<Rightarrow> int \<Rightarrow> player \<Rightarrow> (exn + unit) \<times> player" where
  "Seek b clk offset p =
     (case get_cached_position b clk p of
        (Inl e, p1) \<Rightarrow> (Inl e, p1)
      | (Inr pos0, p1) \<Rightarrow>
          (let pos1 = pos0 + offset div 1000;
               pos2 = (if pos1 < 0 then 0 else pos1)
           in call_setter (Call_set_position pos2) (set_position b pos2) p1))"

definition SetPosition :: "backend \<Rightarrow> string \<Rightarrow> int \<Rightarrow> player \<Rightarrow> (exn + unit) \<times> player" where
  "SetPosition b trackid position p =
     (if trackid \<noteq> get_current_trackid p then (Inr (), p)
      else call_setter (Call_set_position (position div 1000))
             (set_position b (position div 1000)) p)"

definition Volume_dbus_setter :: "backend \<Rightarrow> pyfloat \<Rightarrow> player \<Rightarrow> (exn + unit) \<times> player" where
  "Volume_dbus_setter b volume p =
     (let volume1 = (if float_lt volume (Finite 0) then Finite 0 else volume);
          volume2 = (if float_gt volume1 (Finite 1) then Finite 1 else volume1)
      in call_setter (Call_set_volume volume2) (set_volume b volume2) p)"

text \<open>
  Assigning a property of the bus object: the setter of the source runs (given here as
  the state change \<open>setter\<close>), and the assignment is announced.
\<close>

definition property_set :: "string \<Rightarrow> prop_value \<Rightarrow> (player \<Rightarrow> player) \<Rightarrow> player \<Rightarrow> player" where
  "property_set prop v setter p = called (PropertySet prop v) (setter p)"

definition Metadata_setter :: "mpris_dict \<Rightarrow> player \<Rightarrow> player" where
  "Metadata_setter md p = p\<lparr>metadata := Some md\<rparr>"

definition track_changed ::
  "backend \<Rightarrow> int \<Rightarrow> mpris_dict option \<Rightarrow> player \<Rightarrow> (exn + unit) \<times> player" where
  "track_changed b clk md p =
     (let p1 = p\<lparr>current_trackid := current_trackid p + 1\<rparr>
      in case (case timer p1 of
                 None \<Rightarrow> (Inr (), p1)
               | Some t \<Rightarrow>
                   (case get_position b of
                      Inl e \<Rightarrow> (Inl e, called Call_get_position p1)
                    | Inr v \<Rightarrow>
                        (Inr (), (called Call_get_position p1)
                                   \<lparr>timer := Some (timer_set_time clk v t)\<rparr>))) of
           (Inl e, p2) \<Rightarrow> (Inl e, p2)
         | (Inr _, p2) \<Rightarrow>
             (case (case md of
                      Some m \<Rightarrow> (Inr m, p2)
                    | None \<Rightarrow>
                        (case get_metadata b of
                           Inl e \<Rightarrow> (Inl e, called Call_get_metadata p2)
                         | Inr m \<Rightarrow> (Inr m, called Call_get_metadata p2))) of
                (Inl e, p3) \<Rightarrow> (Inl e, p3)
              | (Inr m, p3) \<Rightarrow>
                  (let dct = make_metadata m p3
                   in (Inr (), property_set ''Metadata'' (PDict dct) (Metadata_setter dct) p3))))"

text \<open>
  \<^verbatim>\<open>caps_changed\<close>. The dictionary \<^verbatim>\<open>caps_map\<close> is iterated in insertion order.
  The condition of the loop is the chained comparison
  \<^verbatim>\<open>cap in orig_caps != cap in self._caps\<close>, which Python evaluates as
  \<^verbatim>\<open>(cap in orig_caps) and (orig_caps != cap) and (cap in self._caps)\<close>: the operators
  \<^verbatim>\<open>in\<close> and \<^verbatim>\<open>!=\<close> are both comparisons and chain. The middle comparison is between
  the old capability set and the integer \<^verbatim>\<open>cap\<close>; \<open>pyobj\<close> holds the two kinds of
  object compared there. The setters \<^verbatim>\<open>CanGoNext\<close> ... \<^verbatim>\<open>CanSeek\<close> are \<^verbatim>\<open>pass\<close>.
\<close>

datatype pyobj = PyInt int | PySet "int set"

definition py_ne :: "pyobj \<Rightarrow> pyobj \<Rightarrow> bool" where
  "py_ne a b = (a \<noteq> b)"

definition caps_map :: "(int \<times> string) list" where
  "caps_map =
     [(NEXT, ''CanGoNext''),
      (PREV, ''CanGoPrevious''),
      (PLAY, ''CanPlay''),
      (PAUSE, ''CanPause''),
      (SEEK, ''CanSeek'')]"

fun caps_loop :: "(int \<times> string) list \<Rightarrow> int set \<Rightarrow> int set \<Rightarrow> player \<Rightarrow> player" where
  "caps_loop [] orig_caps new_caps p = p"
| "caps_loop ((cap, method) # rest) orig_caps new_caps p =
     caps_loop rest orig_caps new_caps
       (if cap \<in> orig_caps \<and> py_ne (PySet orig_caps) (PyInt cap) \<and> cap \<in> new_caps
        then property_set method (PBool (cap \<in> new_caps)) (\<lambda>q. q) p
        else p)"

definition caps_changed :: "backend \<Rightarrow> player \<Rightarrow> (exn + unit) \<times> player" where
  "caps_changed b p =
     (let orig_caps = caps p
      in case get_caps b of
           Inl e \<Rightarrow> (Inl e, called Call_get_caps p)
         | Inr new_caps \<Rightarrow>
             (let p1 = (called Call_get_caps p)\<lparr>caps := Some new_caps\<rparr>
              in case orig_caps of
                   None \<Rightarrow> (Inr (), p1)
                 | Some orig \<Rightarrow> (Inr (), caps_loop caps_map orig new_caps p1)))"

section \<open>BasePlayerProxy: the registry\<close>

text \<open>
  Sessions are objects shared between the registry and whoever else holds them, so
  they live in a store (the list \<open>objects\<close>, a reference being an index into it) and
  the dictionary \<^verbatim>\<open>_connected_players\<close> holds references.
  A key of the dictionary is bound to \<open>None\<close> (Python's \<^verbatim>\<open>None\<close>, which
  \<^verbatim>\<open>setdefault\<close> puts there) or to \<open>Some r\<close>, a session.
\<close>

type_synonym ref = nat

record proxy =
  path_prefix :: string
  cls_name :: string
  proxy_name :: string
  connected_players :: "string \<rightharpoonup> ref option"
  objects :: "player list"
  player_lost :: "string list"
  driver_calls :: "string list"

text \<open>
  \<^verbatim>\<open>BasePlayerProxy.__init__(name)\<close>; \<open>cls\<close> is \<^verbatim>\<open>type(self).__name__\<close>. The signals
  \<^verbatim>\<open>PlayerLost\<close> emitted so far and the arguments of the calls of
  \<^verbatim>\<open>do_connect_player\<close> so far are kept with the state.
\<close>

definition BasePlayerProxy :: "string \<Rightarrow> string \<Rightarrow> string \<Rightarrow> proxy" where
  "BasePlayerProxy prefix cls nm =
     \<lparr>path_prefix = prefix, cls_name = cls, proxy_name = nm,
      connected_players = Map.empty, objects = [],
      player_lost = [], driver_calls = []\<rparr>"

text \<open>
  What \<^verbatim>\<open>do_connect_player\<close> of the derived class does when called: it raises, or it
  returns \<^verbatim>\<open>None\<close> or a session.
\<close>

datatype driver_answer = Raises exn | Returns "ref option"

definition setdefault :: "'k \<Rightarrow> 'v \<Rightarrow> ('k \<rightharpoonup> 'v) \<Rightarrow> 'v \<times> ('k \<rightharpoonup> 'v)" where
  "setdefault k d m = (case m k of None \<Rightarrow> (d, m(k \<mapsto> d)) | Some v \<Rightarrow> (v, m))"

definition is_TypeError :: "exn \<Rightarrow> bool" where
  "is_TypeError e = (case e of TypeError _ \<Rightarrow> True | _ \<Rightarrow> False)"

definition deref :: "proxy \<Rightarrow> ref \<Rightarrow> player option" where
  "deref s r = (if r < length (objects s) then Some (objects s ! r) else None)"

definition store :: "ref \<Rightarrow> player \<Rightarrow> proxy \<Rightarrow> proxy" where
  "store r p s = s\<lparr>objects := (objects s)[r := p]\<rparr>"

text \<open>
  A derived class builds a session with \<^verbatim>\<open>BasePlayer.__init__(proxy, name)\<close>; the new
  object gets the next reference.
\<close>

definition new_player :: "string \<Rightarrow> proxy \<Rightarrow> proxy" where
  "new_player nm s =
     s\<lparr>objects := objects s @ [BasePlayer (path_prefix s) (proxy_name s) nm]\<rparr>"

definition PlayerLost :: "string \<Rightarrow> proxy \<Rightarrow> proxy" where
  "PlayerLost player_name s = s\<lparr>player_lost := player_lost s @ [player_name]\<rparr>"

definition player_lost_cb :: "player \<Rightarrow> proxy \<Rightarrow> proxy" where
  "player_lost_cb p s =
     (if name p \<in> dom (connected_players s) then
        PlayerLost (name p) (s\<lparr>connected_players := (connected_players s)(name p := None)\<rparr>)
      else s)"

fun invoke :: "callback \<Rightarrow> player \<Rightarrow> proxy \<Rightarrow> proxy" where
  "invoke Player_lost_cb p s = player_lost_cb p s"

text \<open>
  \<^verbatim>\<open>player.disconnect()\<close> on the session at reference \<open>r\<close>: the session changes in the
  store, then the callbacks it invokes run on the registry with the session as argument.
\<close>

definition player_disconnect :: "ref \<Rightarrow> proxy \<Rightarrow> proxy" where
  "player_disconnect r s =
     (case deref s r of
        None \<Rightarrow> s
      | Some p \<Rightarrow>
          (case disconnect p of
             (p1, cbs) \<Rightarrow> fold (\<lambda>cb. invoke cb p1) cbs (store r p1 s)))"

text \<open>
  \<^verbatim>\<open>ConnectPlayer(player_name)\<close>, with \<^verbatim>\<open>do_connect_player\<close> of the derived class as
  the parameter of the same name. A session object is true in a condition, \<^verbatim>\<open>None\<close>
  is false. An answer that refers to no object of the store is treated as \<^verbatim>\<open>None\<close>.
\<close>

definition cannot_instantiate :: "proxy \<Rightarrow> string \<Rightarrow> string" where
  "cannot_instantiate s player_name =
     cls_name s @ '' cannot instantiate Player['' @ proxy_name s @ '', '' @ player_name @ '']''"

definition ConnectPlayer ::
  "(string \<Rightarrow> driver_answer) \<Rightarrow> string \<Rightarrow> proxy \<Rightarrow> (exn + string) \<times> proxy" where
  "ConnectPlayer do_connect_player player_name s =
     (case setdefault player_name None (connected_players s) of
        (found, m) \<Rightarrow>
          (let s1 = s\<lparr>connected_players := m\<rparr>
           in case Option.bind found (deref s1) of
                Some p0 \<Rightarrow> (Inr (object_path p0), s1)
              | None \<Rightarrow>
                  (let s2 = s1\<lparr>driver_calls := driver_calls s1 @ [player_name]\<rparr>
                   in case do_connect_player player_name of
                        Raises e \<Rightarrow>
                          (if is_TypeError e
                           then (Inl (BaseError (cannot_instantiate s2 player_name) (Some e)), s2)
                           else (Inl e, s2))
                      | Returns r \<Rightarrow>
                          (case r of
                             None \<Rightarrow>
                               (Inl (ConnectPlayerError ''%s cannot be connected'' player_name), s2)
                           | Some a \<Rightarrow>
                               (case deref s2 a of
                                  None \<Rightarrow>
                                    (Inl (ConnectPlayerError ''%s cannot be connected'' player_name), s2)
                                | Some player \<Rightarrow>
                                    (if connected player then
                                       (let player1 = set_disconnect_cb Player_lost_cb player;
                                            s3 = store a player1 s2;
                                            s4 = s3\<lparr>connected_players :=
                                                       (connected_players s3)(player_name \<mapsto> Some a)\<rparr>
                                        in (Inr (object_path player1), s4))
                                     else
                                       (Inl (ConnectPlayerError ''%s cannot be connected'' player_name),
                                        s2)))))))"

text \<open>
  What happens to a registry over its life: the derived class builds sessions, clients
  call \<^verbatim>\<open>ConnectPlayer\<close> (each call with what the driver answers), and sessions
  disconnect.
\<close>

datatype action =
    New_player string
  | Connect "string \<Rightarrow> driver_answer" string
  | Disconnect ref

fun step :: "action \<Rightarrow> proxy \<Rightarrow> proxy" where
  "step (New_player nm) s = new_player nm s"
| "step (Connect drv nm) s = snd (ConnectPlayer drv nm s)"
| "step (Disconnect r) s = player_disconnect r s"

fun run_actions :: "action list \<Rightarrow> proxy \<Rightarrow> proxy" where
  "run_actions [] s = s"
| "run_actions (a # as) s = run_actions as (step a s)"

section \<open>Reading a trace\<close>

fun set_position_calls :: "effect list \<Rightarrow> int list" where
  "set_position_calls [] = []"
| "set_position_calls (Call_set_position x # es) = x # set_position_calls es"
| "set_position_calls (_ # es) = set_position_calls es"

text \<open>
  The methods of \<^verbatim>\<open>BasePlayer\<close> itself, which a derived class replaces: each
  raises \<^verbatim>\<open>NotImplementedError\<close>.
\<close>

definition BasePlayer_methods :: backend where
  "BasePlayer_methods =
     \<lparr>get_status = Inl NotImplementedError,
      get_metadata = Inl NotImplementedError,
      get_position = Inl NotImplementedError,
      get_caps = Inl NotImplementedError,
      set_position = (\<lambda>pos. Some NotImplementedError),
      set_volume = (\<lambda>volume. Some NotImplementedError)\<rparr>"

text \<open>A derived class whose setters return and whose getters answer as given.\<close>

definition answering :: "status \<Rightarrow> int \<Rightarrow> int set \<Rightarrow> backend" where
  "answering st pos cs =
     \<lparr>get_status = Inr st,
      get_metadata = Inr [],
      get_position = Inr pos,
      get_caps = Inr cs,
      set_position = (\<lambda>pos. None),
      set_volume = (\<lambda>volume. None)\<rparr>"

text \<open>
  Following the words of the spec, not the code: the assignments \<^verbatim>\<open>caps_changed\<close> is
  to make for an old and a new capability set, one for every capability of
  \<^verbatim>\<open>caps_map\<close> whose membership differs between the two, to its membership in the new
  set.
\<close>

definition claimed_assignments :: "int set \<Rightarrow> int set \<Rightarrow> effect list" where
  "claimed_assignments orig_caps new_caps =
     map (\<lambda>(cap, method). PropertySet method (PBool (cap \<in> new_caps)))
       (filter (\<lambda>(cap, method). (cap \<in> orig_caps) \<noteq> (cap \<in> new_caps)) caps_map)"

text \<open>
  The track identifiers announced on the bus: the value under \<^verbatim>\<open>mpris:trackid\<close> of
  every dictionary assigned to the property \<^verbatim>\<open>Metadata\<close>, in order.
\<close>

fun announced_trackids :: "effect list \<Rightarrow> mpris_value option list" where
  "announced_trackids [] = []"
| "announced_trackids (PropertySet prop (PDict dct) # es) =
     (if prop = ''Metadata'' then map_of dct ''mpris:trackid'' # announced_trackids es
      else announced_trackids es)"
| "announced_trackids (_ # es) = announced_trackids es"

section \<open>The life of a session\<close>

text \<open>
  A session lives through calls from the bus and notifications from the derived class,
  each with what the derived class answers during it and the reading of the clock. An
  exception raised by one call ends that call only: the state it left is the state the
  next call finds.
\<close>

datatype session_op =
    Op_Seek int
  | Op_SetPosition string int
  | Op_Volume pyfloat
  | Op_Position
  | Op_track_changed "mpris_dict option"
  | Op_caps_changed

fun session_step :: "backend \<times> int \<times> session_op \<Rightarrow> player \<Rightarrow> player" where
  "session_step (b, clk, Op_Seek offset) p = snd (Seek b clk offset p)"
| "session_step (b, clk, Op_SetPosition trackid position) p = snd (SetPosition b trackid position p)"
| "session_step (b, clk, Op_Volume volume) p = snd (Volume_dbus_setter b volume p)"
| "session_step (b, clk, Op_Position) p = snd (get_cached_position b clk p)"
| "session_step (b, clk, Op_track_changed md) p = snd (track_changed b clk md p)"
| "session_step (b, clk, Op_caps_changed) p = snd (caps_changed b p)"

fun session_run :: "(backend \<times> int \<times> session_op) list \<Rightarrow> player \<Rightarrow> player" where
  "session_run [] p = p"
| "session_run (c # cs) p = session_run cs (session_step c p)"

fun is_track_changed :: "backend \<times> int \<times> session_op \<Rightarrow> bool" where
  "is_track_changed (b, clk, Op_track_changed md) = True"
| "is_track_changed _ = False"

section \<open>The life of a registry\<close>

text \<open>
  The implementations of \<^verbatim>\<open>do_connect_player\<close> are in the derived classes. Its
  docstring says that it creates a player object according to \<^verbatim>\<open>playername\<close> and
  returns it, or \<^verbatim>\<open>None\<close>; the spec, that the driver instantiates a session for the
  name it is given. \<open>as_asked\<close> says of one action that a session the driver returns
  bears the name it was asked for; \<open>named_as_asked\<close> says it of every action of a run.
\<close>

fun as_asked :: "action \<Rightarrow> proxy \<Rightarrow> bool" where
  "as_asked (Connect drv nm) s =
     (case drv nm of
        Returns (Some r) \<Rightarrow> (case deref s r of Some p \<Rightarrow> name p = nm | None \<Rightarrow> True)
      | _ \<Rightarrow> True)"
| "as_asked _ s = True"

fun named_as_asked :: "action list \<Rightarrow> proxy \<Rightarrow> bool" where
  "named_as_asked [] s = True"
| "named_as_asked (a # as) s = (as_asked a s \<and> named_as_asked as (step a s))"

text \<open>The session registered under a name, if there is one.\<close>

definition session_of :: "proxy \<Rightarrow> string \<Rightarrow> player option" where
  "session_of s nm =
     (case connected_players s nm of
        Some (Some r) \<Rightarrow> deref s r
      | _ \<Rightarrow> None)"

text \<open>
  The two ways in which the driver fails to give a usable session: it raises a
  \<^verbatim>\<open>TypeError\<close> (it cannot build the player from its arguments), or it returns
  \<^verbatim>\<open>None\<close> or a session that is not connected.
\<close>

fun driver_fails :: "proxy \<Rightarrow> driver_answer \<Rightarrow> bool" where
  "driver_fails s (Raises e) = is_TypeError e"
| "driver_fails s (Returns None) = True"
| "driver_fails s (Returns (Some a)) =
     (case deref s a of None \<Rightarrow> True | Some player \<Rightarrow> \<not> connected player)"

text \<open>
  The signals \<^verbatim>\<open>PlayerLost\<close> that the calls of \<^verbatim>\<open>disconnect\<close> on the session at
  reference \<open>r\<close> emit during a run.
\<close>

fun lost_by :: "ref \<Rightarrow> action \<Rightarrow> proxy \<Rightarrow> string list" where
  "lost_by r (Disconnect r') s =
     (if r' = r then drop (length (player_lost s)) (player_lost (player_disconnect r' s)) else [])"
| "lost_by r _ s = []"

fun losses :: "ref \<Rightarrow> action list \<Rightarrow> proxy \<Rightarrow> string list" where
  "losses r [] s = []"
| "losses r (a # as) s = lost_by r a s @ losses r as (step a s)"

text \<open>
  The registry and its sessions agree: a name is bound to a session only if that session
  is connected, bears that name and has the callback of the registry; and a connected
  session that has the callback is bound under its name.
\<close>

definition registry_inv :: "proxy \<Rightarrow> bool" where
  "registry_inv s \<longleftrightarrow>
     (\<forall>n r. connected_players s n = Some (Some r) \<longrightarrow>
        (\<exists>p. deref s r = Some p \<and> connected p \<and> name p = n
             \<and> disconnect_cb p = Some Player_lost_cb))
     \<and> (\<forall>r p. deref s r = Some p \<and> connected p \<and> disconnect_cb p \<noteq> None \<longrightarrow>
          connected_players s (name p) = Some (Some r))"

section \<open>The Volume setter\<close>

lemma forwarded_volume:
  "Volume_dbus_setter b volume p =
     call_setter
       (Call_set_volume (if float_lt volume (Finite 0) then Finite 0
               else if float_lt (Finite 1) volume then Finite 1 else volume))
       (set_volume b (if float_lt volume (Finite 0) then Finite 0
               else if float_lt (Finite 1) volume then Finite 1 else volume)) p"
  by (simp add: Volume_dbus_setter_def float_gt_def Let_def)

text \<open>A NaN is below nothing and above nothing, so it is forwarded as it came.\<close>

lemma Volume_NaN_forwarded:
  "snd (Volume_dbus_setter b NaN p) = called (Call_set_volume NaN) p"
  by (simp add: forwarded_volume call_setter_def)

text \<open>
  Claim C10. For every number \<open>volume\<close> that reaches the bus-facing setter of
  \<^verbatim>\<open>Volume\<close> (finite or infinite), there is exactly one call of \<^verbatim>\<open>set_volume\<close>, and
  its argument \<open>v\<close> lies in \<open>[0, 1]\<close>: it is 0 for an input below 0, 1 for an input
  above 1, and the input itself in between. The setter returns what \<^verbatim>\<open>set_volume\<close>
  returns; nothing is rejected.
\<close>

theorem Volume_setter_clamps:
  assumes "volume \<noteq> NaN"
  shows "\<exists>v. Volume_dbus_setter b volume p =
           ((case set_volume b (Finite v) of None \<Rightarrow> Inr () | Some e \<Rightarrow> Inl e),
            p\<lparr>trace := trace p @ [Call_set_volume (Finite v)]\<rparr>)
         \<and> 0 \<le> v \<and> v \<le> 1
         \<and> v = (case volume of
                  Finite x \<Rightarrow> if x < 0 then 0 else if 1 < x then 1 else x
                | PosInf \<Rightarrow> 1
                | _ \<Rightarrow> 0)"
proof (cases volume)
  case (Finite x)
  show ?thesis
    unfolding forwarded_volume Finite
    by (rule exI[of _ "if x < 0 then 0 else if 1 < x then 1 else x"])
       (simp add: call_setter_def called_def)
next
  case PosInf
  show ?thesis
    unfolding forwarded_volume PosInf
    by (rule exI[of _ 1]) (simp add: call_setter_def called_def)
next
  case NegInf
  show ?thesis
    unfolding forwarded_volume NegInf
    by (rule exI[of _ 0]) (simp add: call_setter_def called_def)
next
  case NaN
  with assms show ?thesis by simp
qed

theorem Volume_setter_clamps_witness:
  "Finite (3 / 2) \<noteq> NaN
   \<and> (\<exists>v. Volume_dbus_setter (answering PLAYING 0 {}) (Finite (3 / 2)) (BasePlayer ''/'' ''x'' ''y'') =
           (Inr (), (BasePlayer ''/'' ''x'' ''y'')\<lparr>trace := [Call_set_volume (Finite v)]\<rparr>)
         \<and> v = 1)"
proof -
  have h: "Finite (3 / 2) \<noteq> NaN" by simp
  from Volume_setter_clamps [OF h, of "answering PLAYING 0 {}" "BasePlayer ''/'' ''x'' ''y''"]
  obtain v where
    "Volume_dbus_setter (answering PLAYING 0 {}) (Finite (3 / 2)) (BasePlayer ''/'' ''x'' ''y'') =
       ((case set_volume (answering PLAYING 0 {}) (Finite v) of None \<Rightarrow> Inr () | Some e \<Rightarrow> Inl e),
        (BasePlayer ''/'' ''x'' ''y'')
          \<lparr>trace := trace (BasePlayer ''/'' ''x'' ''y'') @ [Call_set_volume (Finite v)]\<rparr>)"
    and "v = (case Finite (3 / 2) of
                Finite x \<Rightarrow> if x < 0 then 0 else if 1 < x then 1 else x
              | PosInf \<Rightarrow> 1
              | _ \<Rightarrow> 0)"
    by blast
  then have "Volume_dbus_setter (answering PLAYING 0 {}) (Finite (3 / 2)) (BasePlayer ''/'' ''x'' ''y'') =
           (Inr (), (BasePlayer ''/'' ''x'' ''y'')\<lparr>trace := [Call_set_volume (Finite v)]\<rparr>)
         \<and> v = 1"
    by (simp add: answering_def BasePlayer_def)
  with h show ?thesis by blast
qed

section \<open>Position requests\<close>

lemma trace_called [simp]: "trace (called c p) = trace p @ [c]"
  by (simp add: called_def)

lemma set_position_calls_append:
  "set_position_calls (xs @ ys) = set_position_calls xs @ set_position_calls ys"
  by (induction xs rule: set_position_calls.induct) simp_all

text \<open>
  Claim C3. \<^verbatim>\<open>SetPosition(trackid, position)\<close> with a \<open>trackid\<close> other than the
  identifier of the current track returns at once and leaves the session as it was: no
  call into the derived class, no change of state. With the current identifier it calls
  \<^verbatim>\<open>set_position\<close> exactly once, with \<open>position div 1000\<close> (floor division), and returns
  what that call returns.
\<close>

theorem SetPosition_only_current_track:
  "SetPosition b trackid position p =
     (if trackid = get_current_trackid p
      then ((case set_position b (position div 1000) of None \<Rightarrow> Inr () | Some e \<Rightarrow> Inl e),
            p\<lparr>trace := trace p @ [Call_set_position (position div 1000)]\<rparr>)
      else (Inr (), p))
   \<and> set_position_calls (trace (snd (SetPosition b trackid position p))) =
       set_position_calls (trace p) @
         (if trackid = get_current_trackid p then [position div 1000] else [])"
  by (simp add: SetPosition_def call_setter_def called_def set_position_calls_append)

subsection \<open>Reading the position\<close>

lemma get_cached_status_trace:
  "trace (snd (get_cached_status b p)) = trace p @ (if status p = None then [Call_get_status] else [])"
  by (simp add: get_cached_status_def split: option.split sum.split)

lemma setup_timer_status_trace [simp]: "trace (setup_timer_status clk st p) = trace p"
  by (simp add: setup_timer_status_def split: option.split)

lemma setup_timer_trace:
  "trace (snd (setup_timer b clk p)) =
     trace p @ (if timer p = None \<and> status p = None then [Call_get_status] else [])"
proof (cases "timer p")
  case None
  obtain r p2 where g: "get_cached_status b (p\<lparr>timer := Some (Timer clk)\<rparr>) = (r, p2)"
    by (cases "get_cached_status b (p\<lparr>timer := Some (Timer clk)\<rparr>)")
  have "trace p2 = trace p @ (if status p = None then [Call_get_status] else [])"
    using get_cached_status_trace[of b "p\<lparr>timer := Some (Timer clk)\<rparr>"] g by simp
  then show ?thesis
    using None g by (cases r) (simp_all add: setup_timer_def)
next
  case (Some t)
  then show ?thesis by (simp add: setup_timer_def)
qed

lemma timer_time_set [simp]: "timer_time clk (timer_set_time clk v t) = v"
  by (simp add: timer_time_def timer_set_time_def)

lemma run_set_time [simp]: "run (timer_set_time clk v t) = run t"
  by (simp add: timer_set_time_def)

lemma run_transition [simp]: "run (timer_transition r clk t) = r"
  by (simp add: timer_transition_def)

lemma get_cached_position_again:
  "timer p = Some t \<Longrightarrow> get_cached_position b clk p = (Inr (timer_time clk t), p)"
  by (simp add: get_cached_position_def timer_time_of_def)

lemma get_cached_status_Inr:
  assumes "get_cached_status b p = (Inr st, p2)"
  shows "status p2 = Some st \<and> timer p2 = timer p
         \<and> trace p2 = trace p @ (if status p = None then [Call_get_status] else [])
         \<and> get_cached_status b' p2 = (Inr st, p2)"
  using assms
  by (cases "status p"; cases "get_status b")
     (auto simp: get_cached_status_def called_def)

lemma setup_timer_Inr:
  assumes "timer p = None" and "setup_timer b clk p = (Inr u, p1)"
  shows "\<exists>st. status p1 = Some st
           \<and> timer p1 = Some (timer_transition
                (case st of PLAYING \<Rightarrow> Running | PAUSED \<Rightarrow> Paused | STOPPED \<Rightarrow> Stopped) clk (Timer clk))
           \<and> trace p1 = trace p @ (if status p = None then [Call_get_status] else [])"
proof -
  obtain r p2 where g: "get_cached_status b (p\<lparr>timer := Some (Timer clk)\<rparr>) = (r, p2)"
    by (cases "get_cached_status b (p\<lparr>timer := Some (Timer clk)\<rparr>)")
  with assms obtain st where r: "r = Inr st" and p1: "p1 = setup_timer_status clk st p2"
    by (cases r) (auto simp: setup_timer_def)
  from get_cached_status_Inr[OF g[unfolded r]]
  have "status p2 = Some st" "timer p2 = Some (Timer clk)"
    "trace p2 = trace p @ (if status p = None then [Call_get_status] else [])"
    by simp_all
  then show ?thesis
    unfolding p1
    by (cases st) (simp_all add: setup_timer_status_def timer_play_def timer_pause_def timer_stop_def)
qed

lemma timer_time_of_state: "timer_time_of clk p = (r, p1) \<Longrightarrow> p1 = p"
  by (auto simp: timer_time_of_def split: option.splits)

lemma get_cached_status_calls:
  "get_cached_status b p = (r, p1) \<Longrightarrow> set_position_calls (trace p1) = set_position_calls (trace p)"
  using get_cached_status_trace[of b p] by (simp add: set_position_calls_append)

lemma setup_timer_calls:
  "setup_timer b clk p = (r, p1) \<Longrightarrow> set_position_calls (trace p1) = set_position_calls (trace p)"
  using setup_timer_trace[of b clk p] by (simp add: set_position_calls_append)

lemma get_cached_position_calls:
  "get_cached_position b clk p = (r, p1) \<Longrightarrow> set_position_calls (trace p1) = set_position_calls (trace p)"
  by (auto simp: get_cached_position_def Let_def set_position_calls_append
      split: option.splits sum.splits prod.splits if_splits
      dest!: get_cached_status_calls setup_timer_calls timer_time_of_state)

text \<open>
  Claim C2. When the read of the extrapolated position gives \<open>pos\<close> (milliseconds),
  \<^verbatim>\<open>Seek(offset)\<close> with \<open>offset\<close> in microseconds calls \<^verbatim>\<open>set_position\<close> exactly once,
  with \<open>max 0 (pos + offset div 1000)\<close>: floor division, clamped below at 0, with no
  upper bound. \<^verbatim>\<open>Seek\<close> returns what that call returns.
\<close>

theorem Seek_clamps_at_zero:
  assumes "get_cached_position b clk p = (Inr pos, p1)"
  shows "Seek b clk offset p =
           ((case set_position b (max 0 (pos + offset div 1000)) of None \<Rightarrow> Inr () | Some e \<Rightarrow> Inl e),
            p1\<lparr>trace := trace p1 @ [Call_set_position (max 0 (pos + offset div 1000))]\<rparr>)
         \<and> set_position_calls (trace (snd (Seek b clk offset p)))
             = set_position_calls (trace p) @ [max 0 (pos + offset div 1000)]"
  using assms get_cached_position_calls[OF assms]
  by (simp add: Seek_def Let_def call_setter_def called_def max_def set_position_calls_append)

text \<open>At 5000 ms, an offset of -7,000,000 microseconds sends 0, not -2000.\<close>

theorem Seek_clamps_at_zero_witness:
  "get_cached_position (answering PAUSED 0 {}) 0
      ((BasePlayer ''/'' ''x'' ''y'')\<lparr>timer := Some \<lparr>run = Paused, base = 5000, since = 0\<rparr>\<rparr>)
     = (Inr 5000, (BasePlayer ''/'' ''x'' ''y'')\<lparr>timer := Some \<lparr>run = Paused, base = 5000, since = 0\<rparr>\<rparr>)
   \<and> set_position_calls (trace (snd (Seek (answering PAUSED 0 {}) 0 (- 7000000)
         ((BasePlayer ''/'' ''x'' ''y'')\<lparr>timer := Some \<lparr>run = Paused, base = 5000, since = 0\<rparr>\<rparr>)))) = [0]"
proof -
  have h: "get_cached_position (answering PAUSED 0 {}) 0
      ((BasePlayer ''/'' ''x'' ''y'')\<lparr>timer := Some \<lparr>run = Paused, base = 5000, since = 0\<rparr>\<rparr>)
     = (Inr 5000, (BasePlayer ''/'' ''x'' ''y'')\<lparr>timer := Some \<lparr>run = Paused, base = 5000, since = 0\<rparr>\<rparr>)"
    by (simp add: get_cached_position_def timer_time_of_def timer_time_def)
  from Seek_clamps_at_zero [OF h, of "- 7000000"] h show ?thesis
    by (simp add: BasePlayer_def)
qed

text \<open>
  A first read during which \<^verbatim>\<open>get_status\<close> raises leaves the timer created and not
  seeded: \<^verbatim>\<open>_setup_timer\<close> assigns \<^verbatim>\<open>self._timer\<close> before it asks for the status.
\<close>

lemma first_read_status_raises:
  assumes "timer p = None" and "status p = None" and "get_status b = Inl e"
  shows "get_cached_position b clk p = (Inl e, (called Call_get_status p)\<lparr>timer := Some (Timer clk)\<rparr>)"
  using assms
  by (simp add: get_cached_position_def setup_timer_def get_cached_status_def called_def)

text \<open>
  Claim C9, as the spec states it, fails: with the playback status \<^verbatim>\<open>STOPPED\<close> the
  first read of the position creates the timer and asks the derived class for no
  position at all.
\<close>

theorem first_read_when_stopped_counterexample:
  "timer (BasePlayer ''/'' ''x'' ''y'') = None
   \<and> fst (get_cached_position (answering STOPPED 1234 {}) 0 (BasePlayer ''/'' ''x'' ''y'')) = Inr 0
   \<and> count_list (trace (snd (get_cached_position (answering STOPPED 1234 {}) 0 (BasePlayer ''/'' ''x'' ''y''))))
        Call_get_position = 0"
  by (simp add: get_cached_position_def setup_timer_def get_cached_status_def answering_def
      BasePlayer_def called_def setup_timer_status_def timer_time_of_def timer_stop_def
      timer_transition_def timer_time_def Timer_def)

text \<open>
  Claim C9, amended. A first read of the position that returns \<open>pos\<close> has created the
  timer and set its run state to match the cached playback status \<open>st\<close>. Unless \<open>st\<close> is
  \<^verbatim>\<open>STOPPED\<close> it has made exactly one \<^verbatim>\<open>get_position\<close> call and \<open>pos\<close> is what that call
  answered; when \<open>st\<close> is \<^verbatim>\<open>STOPPED\<close> it has made none. Every later read, whatever the
  derived class would answer, returns the extrapolated time of the timer and leaves the
  session as it is, so it makes no call.
\<close>

theorem first_position_read_seeds_timer:
  assumes "timer p = None" and "get_cached_position b clk p = (Inr pos, p1)"
  shows "\<exists>st t. status p1 = Some st \<and> timer p1 = Some t
           \<and> run t = (case st of PLAYING \<Rightarrow> Running | PAUSED \<Rightarrow> Paused | STOPPED \<Rightarrow> Stopped)
           \<and> count_list (trace p1) Call_get_position
               = count_list (trace p) Call_get_position + (if st = STOPPED then 0 else 1)
           \<and> (st = STOPPED \<or> get_position b = Inr pos)
           \<and> get_cached_position b' clk' p1 = (Inr (timer_time clk' t), p1)"
proof -
  obtain r1 q1 where s: "setup_timer b clk p = (r1, q1)"
    by (cases "setup_timer b clk p")
  with assms obtain u where r1: "r1 = Inr u"
    by (cases r1) (auto simp: get_cached_position_def)
  from setup_timer_Inr[OF assms(1) s[unfolded r1]] obtain st where
    q1: "status q1 = Some st"
    "timer q1 = Some (timer_transition
        (case st of PLAYING \<Rightarrow> Running | PAUSED \<Rightarrow> Paused | STOPPED \<Rightarrow> Stopped) clk (Timer clk))"
    "trace q1 = trace p @ (if status p = None then [Call_get_status] else [])"
    by blast
  have g: "get_cached_status b q1 = (Inr st, q1)"
    using q1(1) by (simp add: get_cached_status_def)
  show ?thesis
  proof (cases "st = STOPPED")
    case True
    with assms s r1 g q1 have "p1 = q1"
      by (simp add: get_cached_position_def timer_time_of_def)
    with True q1 show ?thesis
      by (simp add: get_cached_position_again)
  next
    case False
    with assms s r1 g obtain v where v: "get_position b = Inr v"
      by (cases "get_position b") (auto simp: get_cached_position_def)
    with False assms s r1 g q1(2)
    have "p1 = (called Call_get_position q1)\<lparr>timer := Some (timer_set_time clk v
             (timer_transition
        (case st of PLAYING \<Rightarrow> Running | PAUSED \<Rightarrow> Paused | STOPPED \<Rightarrow> Stopped) clk (Timer clk)))\<rparr>"
      and "pos = v"
      by (auto simp: get_cached_position_def timer_time_of_def called_def Let_def)
    with False q1 v show ?thesis
      by (simp add: get_cached_position_again called_def)
  qed
qed

theorem first_position_read_seeds_timer_witness:
  "timer (BasePlayer ''/'' ''x'' ''y'') = None
   \<and> get_cached_position (answering PLAYING 1234 {}) 10 (BasePlayer ''/'' ''x'' ''y'') =
       (Inr 1234,
        (BasePlayer ''/'' ''x'' ''y'')
          \<lparr>timer := Some \<lparr>run = Running, base = 1234, since = 10\<rparr>,
           status := Some PLAYING,
           trace := [Call_get_status, Call_get_position]\<rparr>)
   \<and> get_cached_position BasePlayer_methods 25
        ((BasePlayer ''/'' ''x'' ''y'')
          \<lparr>timer := Some \<lparr>run = Running, base = 1234, since = 10\<rparr>,
           status := Some PLAYING,
           trace := [Call_get_status, Call_get_position]\<rparr>) =
       (Inr 1249,
        (BasePlayer ''/'' ''x'' ''y'')
          \<lparr>timer := Some \<lparr>run = Running, base = 1234, since = 10\<rparr>,
           status := Some PLAYING,
           trace := [Call_get_status, Call_get_position]\<rparr>)"
proof -
  let ?p = "BasePlayer ''/'' ''x'' ''y''"
  let ?p1 = "?p\<lparr>timer := Some \<lparr>run = Running, base = 1234, since = 10\<rparr>,
           status := Some PLAYING,
           trace := [Call_get_status, Call_get_position]\<rparr>"
  have h1: "timer ?p = None" by (simp add: BasePlayer_def)
  have h2: "get_cached_position (answering PLAYING 1234 {}) 10 ?p = (Inr 1234, ?p1)"
    by (simp add: get_cached_position_def setup_timer_def get_cached_status_def answering_def
      BasePlayer_def called_def setup_timer_status_def timer_time_of_def timer_play_def
      timer_transition_def timer_time_def Timer_def timer_set_time_def)
  from first_position_read_seeds_timer [OF h1 h2, of BasePlayer_methods 25]
  obtain t where "timer ?p1 = Some t"
    and "get_cached_position BasePlayer_methods 25 ?p1 = (Inr (timer_time 25 t), ?p1)"
    by blast
  then have "get_cached_position BasePlayer_methods 25 ?p1 = (Inr 1249, ?p1)"
    by (auto simp: timer_time_def)
  with h1 h2 show ?thesis by blast
qed

section \<open>Capability changes\<close>

lemma caps_loop_trace:
  "trace (caps_loop m orig new p) =
     trace p @ map (\<lambda>(c, meth). PropertySet meth (PBool True))
                 (filter (\<lambda>(c, meth). c \<in> orig \<and> c \<in> new) m)"
  by (induction m orig new p rule: caps_loop.induct)
     (simp_all add: py_ne_def property_set_def)

text \<open>
  With a populated cache, \<^verbatim>\<open>caps_changed\<close> assigns the property of every capability
  that is in the old set and in the new one, each to true, and of no other: the
  capabilities whose membership did not change, among those present.
\<close>

lemma caps_changed_trace:
  assumes "caps p = Some orig" and "get_caps b = Inr new"
  shows "trace (snd (caps_changed b p)) =
     trace p @ Call_get_caps # map (\<lambda>(c, meth). PropertySet meth (PBool True))
                 (filter (\<lambda>(c, meth). c \<in> orig \<and> c \<in> new) caps_map)"
  using assms by (simp add: caps_changed_def caps_loop_trace)

text \<open>
  Claim C1. With the old set \<open>{PLAY, SEEK}\<close> and the new set \<open>{PLAY, NEXT}\<close> the claim
  expects \<^verbatim>\<open>CanGoNext\<close> (true) and \<^verbatim>\<open>CanSeek\<close> (false) and nothing for \<^verbatim>\<open>CanPlay\<close>.
  The code asks the derived class for the capabilities and then assigns \<^verbatim>\<open>CanPlay\<close>
  (true) alone.
\<close>

theorem caps_changed_assigns_unchanged_only:
  "trace (snd (caps_changed (answering PLAYING 0 {PLAY, NEXT})
                 ((BasePlayer ''/'' ''x'' ''y'')\<lparr>caps := Some {PLAY, SEEK}\<rparr>)))
     = [Call_get_caps, PropertySet ''CanPlay'' (PBool True)]
   \<and> claimed_assignments {PLAY, SEEK} {PLAY, NEXT}
     = [PropertySet ''CanGoNext'' (PBool True), PropertySet ''CanSeek'' (PBool False)]"
  by (simp add: caps_changed_trace[of _ "{PLAY, SEEK}" _ "{PLAY, NEXT}"] answering_def
      BasePlayer_def caps_map_def claimed_assignments_def
      NEXT_def PREV_def PLAY_def PAUSE_def SEEK_def)

section \<open>Disconnecting\<close>

lemma deref_Some_length: "deref s r = Some p \<Longrightarrow> r < length (objects s)"
  by (simp add: deref_def split: if_splits)

lemma store_deref_same: "deref s r = Some p \<Longrightarrow> store r p s = s"
  by (auto simp: deref_def store_def split: if_splits)

lemma deref_store:
  "deref (store r p s) r' = (if r' = r \<and> r < length (objects s) then Some p else deref s r')"
  by (simp add: deref_def store_def)

lemma player_lost_cb_objects [simp]: "objects (player_lost_cb p s) = objects s"
  by (simp add: player_lost_cb_def PlayerLost_def)

lemma deref_player_lost_cb [simp]: "deref (player_lost_cb p s) r = deref s r"
  by (simp add: deref_def)

lemma player_disconnect_unconnected:
  "deref s r = Some p \<Longrightarrow> \<not> connected p \<Longrightarrow> player_disconnect r s = s"
  by (simp add: player_disconnect_def disconnect_def store_deref_same)

lemma player_disconnect_connected:
  assumes "deref s r = Some p" and "connected p"
  shows "player_disconnect r s =
     (case disconnect_cb p of
        None \<Rightarrow> store r (p\<lparr>connected := False, exported := False\<rparr>) s
      | Some cb \<Rightarrow> player_lost_cb (p\<lparr>connected := False, exported := False\<rparr>)
                    (store r (p\<lparr>connected := False, exported := False\<rparr>) s))"
proof (cases "disconnect_cb p")
  case None
  with assms show ?thesis by (simp add: player_disconnect_def disconnect_def)
next
  case (Some cb)
  with assms show ?thesis by (cases cb) (simp add: player_disconnect_def disconnect_def)
qed

lemma player_disconnect_deref:
  "deref s r = Some p \<Longrightarrow> connected p \<Longrightarrow>
     deref (player_disconnect r s) r = Some (p\<lparr>connected := False, exported := False\<rparr>)"
  using deref_Some_length[of s r p]
  by (cases "disconnect_cb p") (simp_all add: player_disconnect_connected deref_store)

lemma player_disconnect_twice:
  "player_disconnect r (player_disconnect r s) = player_disconnect r s"
proof (cases "deref s r")
  case None
  then show ?thesis by (simp add: player_disconnect_def)
next
  case (Some p)
  show ?thesis
  proof (cases "connected p")
    case True
    from player_disconnect_deref[OF Some True] show ?thesis
      by (rule player_disconnect_unconnected) simp
  next
    case False
    with Some show ?thesis by (simp add: player_disconnect_unconnected)
  qed
qed

text \<open>
  Claim C7. The first \<^verbatim>\<open>disconnect()\<close> of a connected session sets the flag
  \<^verbatim>\<open>_connected\<close> to false, takes the object off the bus, and invokes the registered
  callback once (none when none is registered). On a session that is not connected
  \<^verbatim>\<open>disconnect()\<close> changes nothing and invokes nothing; so a second call after a first
  is a no-op, for the session and, with the callback run on the registry, for the
  registry as well.
\<close>

theorem disconnect_idempotent:
  "disconnect p =
     (if connected p
      then (p\<lparr>connected := False, exported := False\<rparr>,
            case disconnect_cb p of Some cb \<Rightarrow> [cb] | None \<Rightarrow> [])
      else (p, []))
   \<and> disconnect (fst (disconnect p)) = (fst (disconnect p), [])
   \<and> player_disconnect r (player_disconnect r s) = player_disconnect r s"
  by (cases "disconnect_cb p") (simp_all add: disconnect_def player_disconnect_twice)

section \<open>Track changes\<close>

lemma digit_inj: "a < 10 \<Longrightarrow> b < 10 \<Longrightarrow> digit a = digit b \<Longrightarrow> a = b"
  by (simp add: digit_def split: if_splits) arith

lemma digit_not_minus [simp]: "digit d \<noteq> CHR ''-''" "CHR ''-'' \<noteq> digit d"
  by (simp_all add: digit_def)

lemma str_nat_small: "n < 10 \<Longrightarrow> str_nat n = [digit n]"
  by (subst str_nat.simps) simp

lemma str_nat_big: "\<not> n < 10 \<Longrightarrow> str_nat n = str_nat (n div 10) @ [digit (n mod 10)]"
  by (subst str_nat.simps) simp

lemma str_nat_not_minus: "CHR ''-'' \<notin> set (str_nat n)"
proof (induction n rule: str_nat.induct)
  case (1 n)
  then show ?case
    by (cases "n < 10") (simp_all add: str_nat_small str_nat_big)
qed

lemma str_nat_nonempty: "str_nat n \<noteq> []"
  by (cases "n < 10") (simp_all add: str_nat_small str_nat_big)

lemma str_nat_inj: "str_nat n = str_nat m \<Longrightarrow> n = m"
proof (induction n arbitrary: m rule: str_nat.induct)
  case (1 n)
  show ?case
  proof (cases "n < 10")
    case True
    show ?thesis
    proof (cases "m < 10")
      case m: True
      with True 1(2) show ?thesis by (simp add: str_nat_small digit_inj)
    next
      case False
      with True 1(2) show ?thesis
        using str_nat_nonempty[of "m div 10"] by (simp add: str_nat_small str_nat_big)
    qed
  next
    case False
    show ?thesis
    proof (cases "m < 10")
      case True
      with False 1(2) show ?thesis
        using str_nat_nonempty[of "n div 10"] by (simp add: str_nat_small str_nat_big)
    next
      case m: False
      from 1(2) False m
      have a: "str_nat (n div 10) = str_nat (m div 10)" and b: "digit (n mod 10) = digit (m mod 10)"
        by (simp_all add: str_nat_big)
      from 1(1)[OF False a] have "n div 10 = m div 10" .
      moreover from b have "n mod 10 = m mod 10" by (rule digit_inj[rotated 2]) simp_all
      ultimately show ?thesis by (metis div_mult_mod_eq)
    qed
  qed
qed

lemma str_int_inj: "str_int i = str_int j \<Longrightarrow> i = j"
proof -
  assume eq: "str_int i = str_int j"
  have neg: "\<And>n. hd (str_nat n) \<noteq> CHR ''-''"
    using str_nat_not_minus str_nat_nonempty by (metis hd_in_set)
  show ?thesis
  proof (cases "i < 0")
    case True
    show ?thesis
    proof (cases "j < 0")
      case j: True
      with True eq have "str_nat (nat (- i)) = str_nat (nat (- j))" by (simp add: str_int_def)
      then have "nat (- i) = nat (- j)" by (rule str_nat_inj)
      with True j show ?thesis by simp
    next
      case False
      with True eq have "CHR ''-'' # str_nat (nat (- i)) = str_nat (nat j)" by (simp add: str_int_def)
      then have "hd (str_nat (nat j)) = CHR ''-''" by (metis list.sel(1))
      with neg show ?thesis by blast
    qed
  next
    case False
    show ?thesis
    proof (cases "j < 0")
      case True
      with False eq have "str_nat (nat i) = CHR ''-'' # str_nat (nat (- j))" by (simp add: str_int_def)
      then have "hd (str_nat (nat i)) = CHR ''-''" by (metis list.sel(1))
      with neg show ?thesis by blast
    next
      case j: False
      with False eq have "str_nat (nat i) = str_nat (nat j)" by (simp add: str_int_def)
      then have "nat i = nat j" by (rule str_nat_inj)
      with False j show ?thesis by simp
    qed
  qed
qed

lemma announced_trackids_append:
  "announced_trackids (xs @ ys) = announced_trackids xs @ announced_trackids ys"
  by (induction xs rule: announced_trackids.induct) simp_all

text \<open>The operations that are no track change keep the counter and announce no track.\<close>

lemma get_cached_status_track:
  "current_trackid (snd (get_cached_status b p)) = current_trackid p
   \<and> announced_trackids (trace (snd (get_cached_status b p))) = announced_trackids (trace p)"
  by (simp add: get_cached_status_def called_def announced_trackids_append
      split: option.split sum.split)

lemma setup_timer_status_track [simp]:
  "current_trackid (setup_timer_status clk st p) = current_trackid p"
  by (simp add: setup_timer_status_def split: option.split)

lemma setup_timer_track:
  "current_trackid (snd (setup_timer b clk p)) = current_trackid p
   \<and> announced_trackids (trace (snd (setup_timer b clk p))) = announced_trackids (trace p)"
proof (cases "timer p")
  case None
  obtain r p2 where g: "get_cached_status b (p\<lparr>timer := Some (Timer clk)\<rparr>) = (r, p2)"
    by (cases "get_cached_status b (p\<lparr>timer := Some (Timer clk)\<rparr>)")
  with get_cached_status_track[of b "p\<lparr>timer := Some (Timer clk)\<rparr>"]
  have "current_trackid p2 = current_trackid p"
    "announced_trackids (trace p2) = announced_trackids (trace p)" by simp_all
  with None g show ?thesis by (cases r) (simp_all add: setup_timer_def)
next
  case (Some t)
  then show ?thesis by (simp add: setup_timer_def)
qed

lemma get_cached_position_track:
  "current_trackid (snd (get_cached_position b clk p)) = current_trackid p
   \<and> announced_trackids (trace (snd (get_cached_position b clk p))) = announced_trackids (trace p)"
proof (cases "timer p")
  case (Some t)
  then show ?thesis by (simp add: get_cached_position_def timer_time_of_def)
next
  case None
  obtain r1 p1 where s: "setup_timer b clk p = (r1, p1)" by (cases "setup_timer b clk p")
  with setup_timer_track[of b clk p]
  have p1: "current_trackid p1 = current_trackid p"
    "announced_trackids (trace p1) = announced_trackids (trace p)" by simp_all
  obtain r2 p2 where g: "get_cached_status b p1 = (r2, p2)" by (cases "get_cached_status b p1")
  with get_cached_status_track[of b p1] p1
  have p2: "current_trackid p2 = current_trackid p"
    "announced_trackids (trace p2) = announced_trackids (trace p)" by simp_all
  show ?thesis
  proof (cases r1)
    case (Inl e)
    with None s p1 show ?thesis by (simp add: get_cached_position_def)
  next
    case (Inr u)
    show ?thesis
    proof (cases r2)
      case (Inl e)
      with None s Inr g p2 show ?thesis by (simp add: get_cached_position_def)
    next
      case st: (Inr st)
      with None s Inr g p2 show ?thesis
        by (cases "get_position b"; cases "timer p2")
           (simp_all add: get_cached_position_def timer_time_of_def called_def
             announced_trackids_append)
    qed
  qed
qed

lemma caps_loop_track:
  "current_trackid (caps_loop m orig new p) = current_trackid p
   \<and> announced_trackids (trace (caps_loop m orig new p)) = announced_trackids (trace p)"
  by (induction m orig new p rule: caps_loop.induct)
     (simp_all add: property_set_def called_def announced_trackids_append)

lemma caps_changed_track:
  "current_trackid (snd (caps_changed b p)) = current_trackid p
   \<and> announced_trackids (trace (snd (caps_changed b p))) = announced_trackids (trace p)"
  by (cases "get_caps b"; cases "caps p")
     (simp_all add: caps_changed_def caps_loop_track called_def announced_trackids_append)

lemma Seek_track:
  "current_trackid (snd (Seek b clk offset p)) = current_trackid p
   \<and> announced_trackids (trace (snd (Seek b clk offset p))) = announced_trackids (trace p)"
proof -
  obtain r p1 where g: "get_cached_position b clk p = (r, p1)"
    by (cases "get_cached_position b clk p")
  with get_cached_position_track[of b clk p] show ?thesis
    by (cases r) (simp_all add: Seek_def call_setter_def called_def Let_def announced_trackids_append)
qed

lemma SetPosition_track:
  "current_trackid (snd (SetPosition b trackid position p)) = current_trackid p
   \<and> announced_trackids (trace (snd (SetPosition b trackid position p))) = announced_trackids (trace p)"
  by (simp add: SetPosition_def call_setter_def called_def announced_trackids_append)

lemma Volume_track:
  "current_trackid (snd (Volume_dbus_setter b volume p)) = current_trackid p
   \<and> announced_trackids (trace (snd (Volume_dbus_setter b volume p))) = announced_trackids (trace p)"
  by (simp add: Volume_dbus_setter_def call_setter_def called_def announced_trackids_append Let_def)

lemma track_changed_track:
  "current_trackid (snd (track_changed b clk md p)) = current_trackid p + 1
   \<and> announced_trackids (trace (snd (track_changed b clk md p))) =
       announced_trackids (trace p) @
         (case fst (track_changed b clk md p) of
            Inl e \<Rightarrow> []
          | Inr u \<Rightarrow> [Some (MString (''/'' @ str_int (current_trackid p + 1)))])"
  by (cases "timer p"; cases "get_position b"; cases md; cases "get_metadata b")
     (simp_all add: track_changed_def Let_def called_def property_set_def Metadata_setter_def
        make_metadata_def get_current_trackid_def announced_trackids_append update_conv')


lemma session_step_track:
  "current_trackid (session_step c p) =
     current_trackid p + (if is_track_changed c then 1 else 0)
   \<and> (\<exists>e. announced_trackids (trace (session_step c p)) =
         announced_trackids (trace p) @
           (if is_track_changed c \<and> e then [Some (MString (''/'' @ str_int (current_trackid p + 1)))] else []))"
proof -
  obtain b clk opn where c: "c = (b, clk, opn)" by (cases c)
  show ?thesis
  proof (cases opn)
    case (Op_Seek x)
    with c show ?thesis using Seek_track[of b clk x p] by simp
  next
    case (Op_SetPosition t x)
    with c show ?thesis using SetPosition_track[of b t x p] by simp
  next
    case (Op_Volume v)
    with c show ?thesis using Volume_track[of b v p] by simp
  next
    case Op_Position
    with c show ?thesis using get_cached_position_track[of b clk p] by simp
  next
    case (Op_track_changed md)
    show ?thesis
    proof (cases "fst (track_changed b clk md p)")
      case (Inl e)
      with c Op_track_changed show ?thesis
        using track_changed_track[of b clk md p] by (auto intro: exI[of _ False])
    next
      case (Inr u)
      with c Op_track_changed show ?thesis
        using track_changed_track[of b clk md p] by (auto intro: exI[of _ True])
    qed
  next
    case Op_caps_changed
    with c show ?thesis using caps_changed_track[of b p] by simp
  qed
qed

lemma session_run_trackid:
  "current_trackid (session_run cs p) = current_trackid p + int (length (filter is_track_changed cs))"
  by (induction cs arbitrary: p) (simp_all add: session_step_track)

lemma session_run_announced:
  assumes "\<forall>x \<in> set (announced_trackids (trace p)).
             \<exists>k. k \<le> current_trackid p \<and> x = Some (MString (''/'' @ str_int k))"
    and "distinct (announced_trackids (trace p))"
  shows "distinct (announced_trackids (trace (session_run cs p)))"
  using assms
proof (induction cs arbitrary: p)
  case Nil
  then show ?case by simp
next
  case (Cons c cs)
  let ?q = "session_step c p"
  let ?new = "Some (MString (''/'' @ str_int (current_trackid p + 1)))"
  from session_step_track[of c p] obtain e where
    t: "current_trackid ?q = current_trackid p + (if is_track_changed c then 1 else 0)"
    and a: "announced_trackids (trace ?q) =
         announced_trackids (trace p) @ (if is_track_changed c \<and> e then [?new] else [])"
    by blast
  have fresh: "?new \<notin> set (announced_trackids (trace p))"
  proof
    assume "?new \<in> set (announced_trackids (trace p))"
    with Cons.prems(1) obtain k where "k \<le> current_trackid p"
      and "?new = Some (MString (''/'' @ str_int k))" by blast
    then show False using str_int_inj[of "current_trackid p + 1" k] by simp
  qed
  have 1: "\<forall>x \<in> set (announced_trackids (trace ?q)).
             \<exists>k. k \<le> current_trackid ?q \<and> x = Some (MString (''/'' @ str_int k))"
  proof
    fix x assume "x \<in> set (announced_trackids (trace ?q))"
    with a have "x \<in> set (announced_trackids (trace p)) \<or> (is_track_changed c \<and> x = ?new)"
      by (auto split: if_splits)
    then show "\<exists>k. k \<le> current_trackid ?q \<and> x = Some (MString (''/'' @ str_int k))"
    proof
      assume "x \<in> set (announced_trackids (trace p))"
      with Cons.prems(1) obtain k where "k \<le> current_trackid p"
        and "x = Some (MString (''/'' @ str_int k))" by blast
      with t show ?thesis by (intro exI[of _ k]) simp
    next
      assume "is_track_changed c \<and> x = ?new"
      with t show ?thesis by (intro exI[of _ "current_trackid p + 1"]) simp
    qed
  qed
  have 2: "distinct (announced_trackids (trace ?q))"
    using Cons.prems(2) fresh unfolding a by (cases "is_track_changed c \<and> e") auto
  from Cons.IH[OF 1 2] show ?case by simp
qed

text \<open>
  Claim C6. Every call of \<^verbatim>\<open>track_changed\<close>, whether it returns or raises, leaves the
  counter \<^verbatim>\<open>_current_trackid\<close> one higher; a call that returns announces a
  \<^verbatim>\<open>Metadata\<close> whose \<^verbatim>\<open>mpris:trackid\<close> is the new identifier. No other operation of
  the session moves the counter, so after any sequence of operations the counter has
  grown by the number of notifications in it; and over the life of a session, from its
  construction on, no two announcements carry the same identifier.
\<close>

theorem trackid_never_reused:
  "current_trackid (snd (track_changed b clk md p)) = current_trackid p + 1
   \<and> announced_trackids (trace (snd (track_changed b clk md p))) =
       announced_trackids (trace p) @
         (case fst (track_changed b clk md p) of
            Inl e \<Rightarrow> []
          | Inr u \<Rightarrow> [Some (MString (get_current_trackid (snd (track_changed b clk md p))))])
   \<and> current_trackid (session_run cs p)
       = current_trackid p + int (length (filter is_track_changed cs))
   \<and> distinct (announced_trackids (trace (session_run cs (BasePlayer prefix proxy_nm nm))))"
proof -
  have "distinct (announced_trackids (trace (session_run cs (BasePlayer prefix proxy_nm nm))))"
    by (rule session_run_announced) (simp_all add: BasePlayer_def)
  then show ?thesis
    by (simp add: track_changed_track session_run_trackid get_current_trackid_def
        split: sum.split)
qed


section \<open>Connecting\<close>

lemma deref_connected_players_update [simp]:
  "deref (s\<lparr>connected_players := m\<rparr>) r = deref s r"
  "deref (s\<lparr>driver_calls := d\<rparr>) r = deref s r"
  "deref (s\<lparr>player_lost := l\<rparr>) r = deref s r"
  by (simp_all add: deref_def)

lemma found_session:
  "Option.bind (fst (setdefault nm None (connected_players s))) (deref s) = session_of s nm"
  by (simp add: setdefault_def session_of_def split: option.split)

lemma setdefault_unregistered:
  assumes "connected_players s nm = None \<or> connected_players s nm = Some None"
  shows "setdefault nm None (connected_players s) = (None, (connected_players s)(nm \<mapsto> None))"
  using assms by (auto simp: setdefault_def map_upd_triv)

lemma ConnectPlayer_registered:
  assumes "connected_players s nm = Some (Some r)" and "deref s r = Some p0"
  shows "ConnectPlayer drv nm s = (Inr (object_path p0), s)"
  using assms by (simp add: ConnectPlayer_def setdefault_def)

text \<open>\<^verbatim>\<open>ConnectPlayer\<close> for a name that is bound to no session.\<close>

lemma ConnectPlayer_unregistered:
  assumes "connected_players s nm = None \<or> connected_players s nm = Some None"
  shows "ConnectPlayer drv nm s =
     (case drv nm of
        Raises e \<Rightarrow>
          (Inl (if is_TypeError e then BaseError (cannot_instantiate s nm) (Some e) else e),
           s\<lparr>connected_players := (connected_players s)(nm \<mapsto> None),
             driver_calls := driver_calls s @ [nm]\<rparr>)
      | Returns None \<Rightarrow>
          (Inl (ConnectPlayerError ''%s cannot be connected'' nm),
           s\<lparr>connected_players := (connected_players s)(nm \<mapsto> None),
             driver_calls := driver_calls s @ [nm]\<rparr>)
      | Returns (Some a) \<Rightarrow>
          (case deref s a of
             None \<Rightarrow>
               (Inl (ConnectPlayerError ''%s cannot be connected'' nm),
                s\<lparr>connected_players := (connected_players s)(nm \<mapsto> None),
                  driver_calls := driver_calls s @ [nm]\<rparr>)
           | Some player \<Rightarrow>
               (if connected player then
                  (Inr (object_path player),
                   s\<lparr>connected_players := (connected_players s)(nm \<mapsto> Some a),
                     driver_calls := driver_calls s @ [nm],
                     objects := (objects s)[a := set_disconnect_cb Player_lost_cb player]\<rparr>)
                else
                  (Inl (ConnectPlayerError ''%s cannot be connected'' nm),
                   s\<lparr>connected_players := (connected_players s)(nm \<mapsto> None),
                     driver_calls := driver_calls s @ [nm]\<rparr>))))"
proof (cases "drv nm")
  case (Raises e)
  then show ?thesis
    by (simp add: ConnectPlayer_def setdefault_unregistered[OF assms] cannot_instantiate_def)
next
  case (Returns r)
  show ?thesis
  proof (cases r)
    case None
    with Returns show ?thesis
      by (simp add: ConnectPlayer_def setdefault_unregistered[OF assms])
  next
    case (Some a)
    show ?thesis
    proof (cases "deref s a")
      case None
      with Returns Some show ?thesis
        by (simp add: ConnectPlayer_def setdefault_unregistered[OF assms])
    next
      case player: (Some player)
      with Returns Some show ?thesis
        by (cases "connected player")
           (simp_all add: ConnectPlayer_def setdefault_unregistered[OF assms] store_def
              set_disconnect_cb_def)
    qed
  qed
qed

lemma registry_invI:
  assumes "\<And>n r. connected_players s n = Some (Some r) \<Longrightarrow>
             \<exists>p. deref s r = Some p \<and> connected p \<and> name p = n
                \<and> disconnect_cb p = Some Player_lost_cb"
    and "\<And>r p. deref s r = Some p \<Longrightarrow> connected p \<Longrightarrow> disconnect_cb p \<noteq> None \<Longrightarrow>
             connected_players s (name p) = Some (Some r)"
  shows "registry_inv s"
  using assms unfolding registry_inv_def by blast

lemma registry_inv_bound:
  "registry_inv s \<Longrightarrow> connected_players s n = Some (Some r) \<Longrightarrow>
     \<exists>p. deref s r = Some p \<and> connected p \<and> name p = n \<and> disconnect_cb p = Some Player_lost_cb"
  unfolding registry_inv_def by blast

lemma registry_inv_owner:
  "registry_inv s \<Longrightarrow> deref s r = Some p \<Longrightarrow> connected p \<Longrightarrow> disconnect_cb p \<noteq> None \<Longrightarrow>
     connected_players s (name p) = Some (Some r)"
  unfolding registry_inv_def by blast

lemma registry_inv_init: "registry_inv (BasePlayerProxy prefix cls nm)"
  by (simp add: registry_inv_def BasePlayerProxy_def deref_def)

lemma deref_new_player:
  "deref (new_player nm s) r =
     (if r = length (objects s) then Some (BasePlayer (path_prefix s) (proxy_name s) nm)
      else deref s r)"
  by (auto simp: deref_def new_player_def nth_append)

lemma registry_inv_new_player:
  assumes "registry_inv s"
  shows "registry_inv (new_player nm s)"
proof (rule registry_invI)
  fix n r assume "connected_players (new_player nm s) n = Some (Some r)"
  then have "connected_players s n = Some (Some r)" by (simp add: new_player_def)
  from registry_inv_bound[OF assms this] obtain p where
    p: "deref s r = Some p" "connected p" "name p = n" "disconnect_cb p = Some Player_lost_cb"
    by blast
  then have "r < length (objects s)" by (simp add: deref_def split: if_splits)
  with p show "\<exists>p. deref (new_player nm s) r = Some p \<and> connected p \<and> name p = n
                \<and> disconnect_cb p = Some Player_lost_cb"
    by (simp add: deref_new_player)
next
  fix r p
  assume d: "deref (new_player nm s) r = Some p" and c: "connected p" and cb: "disconnect_cb p \<noteq> None"
  from d cb have "deref s r = Some p"
    by (auto simp: deref_new_player BasePlayer_def split: if_splits)
  from registry_inv_owner[OF assms this c cb]
  show "connected_players (new_player nm s) (name p) = Some (Some r)"
    by (simp add: new_player_def)
qed

lemma deref_objects_update:
  "deref (s\<lparr>objects := (objects s)[a := q]\<rparr>) r =
     (if r = a \<and> a < length (objects s) then Some q else deref s r)"
  by (simp add: deref_def)

lemma set_disconnect_cb_fields [simp]:
  "connected (set_disconnect_cb cb p) = connected p"
  "name (set_disconnect_cb cb p) = name p"
  "disconnect_cb (set_disconnect_cb cb p) = Some cb"
  "object_path (set_disconnect_cb cb p) = object_path p"
  by (simp_all add: set_disconnect_cb_def)

lemma registry_inv_unbound:
  assumes "registry_inv s"
    and "connected_players s nm = None \<or> connected_players s nm = Some None"
  shows "registry_inv (s\<lparr>connected_players := (connected_players s)(nm \<mapsto> None),
                         driver_calls := d\<rparr>)"
proof (rule registry_invI)
  fix n r
  assume "connected_players (s\<lparr>connected_players := (connected_players s)(nm \<mapsto> None),
                         driver_calls := d\<rparr>) n = Some (Some r)"
  then have "connected_players s n = Some (Some r)" by (simp split: if_splits)
  from registry_inv_bound[OF assms(1) this]
  show "\<exists>p. deref (s\<lparr>connected_players := (connected_players s)(nm \<mapsto> None),
                         driver_calls := d\<rparr>) r = Some p \<and> connected p \<and> name p = n
                \<and> disconnect_cb p = Some Player_lost_cb"
    by simp
next
  fix r p
  assume "deref (s\<lparr>connected_players := (connected_players s)(nm \<mapsto> None),
                         driver_calls := d\<rparr>) r = Some p"
    and c: "connected p" and cb: "disconnect_cb p \<noteq> None"
  then have "deref s r = Some p" by simp
  from registry_inv_owner[OF assms(1) this c cb]
  have o: "connected_players s (name p) = Some (Some r)" .
  with assms(2) have "name p \<noteq> nm" by auto
  with o show "connected_players (s\<lparr>connected_players := (connected_players s)(nm \<mapsto> None),
                         driver_calls := d\<rparr>) (name p) = Some (Some r)"
    by simp
qed

lemma registry_inv_bind:
  assumes inv: "registry_inv s"
    and un: "connected_players s nm = None \<or> connected_players s nm = Some None"
    and a: "deref s a = Some player" "connected player" "name player = nm"
  shows "registry_inv (s\<lparr>connected_players := (connected_players s)(nm \<mapsto> Some a),
                         driver_calls := d,
                         objects := (objects s)[a := set_disconnect_cb Player_lost_cb player]\<rparr>)"
    (is "registry_inv ?s'")
proof (rule registry_invI)
  have len: "a < length (objects s)" using a(1) by (rule deref_Some_length)
  have d: "deref ?s' r = (if r = a then Some (set_disconnect_cb Player_lost_cb player) else deref s r)"
    for r using len by (simp add: deref_def)
  {
    fix n r
    assume b: "connected_players ?s' n = Some (Some r)"
    show "\<exists>p. deref ?s' r = Some p \<and> connected p \<and> name p = n
                \<and> disconnect_cb p = Some Player_lost_cb"
    proof (cases "n = nm")
      case True
      with b have "r = a" by simp
      with True a show ?thesis by (simp only: d) simp
    next
      case False
      with b have "connected_players s n = Some (Some r)" by simp
      from registry_inv_bound[OF inv this] obtain p where
        p: "deref s r = Some p" "connected p" "name p = n" "disconnect_cb p = Some Player_lost_cb"
        by blast
      with False a have "r \<noteq> a" by auto
      with p show ?thesis by (simp only: d) simp
    qed
  }
  {
    fix r p
    assume dr: "deref ?s' r = Some p" and c: "connected p" and cb: "disconnect_cb p \<noteq> None"
    show "connected_players ?s' (name p) = Some (Some r)"
    proof (cases "r = a")
      case True
      with dr a show ?thesis by (simp only: d) auto
    next
      case False
      with dr have "deref s r = Some p" by (simp only: d) simp
      from registry_inv_owner[OF inv this c cb]
      have o: "connected_players s (name p) = Some (Some r)" .
      with un have "name p \<noteq> nm" by auto
      with o show ?thesis by simp
    qed
  }
qed

lemma registry_inv_ConnectPlayer:
  assumes inv: "registry_inv s" and asked: "as_asked (Connect drv nm) s"
  shows "registry_inv (snd (ConnectPlayer drv nm s))"
proof (cases "connected_players s nm = None \<or> connected_players s nm = Some None")
  case True
  note un = this
  show ?thesis
  proof (cases "drv nm")
    case (Raises e)
    then show ?thesis
      by (simp add: ConnectPlayer_unregistered[OF un] registry_inv_unbound[OF inv un])
  next
    case (Returns r)
    show ?thesis
    proof (cases r)
      case None
      with Returns show ?thesis
        by (simp add: ConnectPlayer_unregistered[OF un] registry_inv_unbound[OF inv un])
    next
      case (Some a)
      show ?thesis
      proof (cases "deref s a")
        case None
        with Returns Some show ?thesis
          by (simp add: ConnectPlayer_unregistered[OF un] registry_inv_unbound[OF inv un])
      next
        case player: (Some player)
        show ?thesis
        proof (cases "connected player")
          case True
          from asked Returns Some player have "name player = nm" by simp
          from registry_inv_bind[OF inv un player True this] Returns Some player True
          show ?thesis by (simp add: ConnectPlayer_unregistered[OF un])
        next
          case False
          with Returns Some player show ?thesis
            by (simp add: ConnectPlayer_unregistered[OF un] registry_inv_unbound[OF inv un])
        qed
      qed
    qed
  qed
next
  case False
  then obtain r where b: "connected_players s nm = Some (Some r)"
    by (cases "connected_players s nm") auto
  from registry_inv_bound[OF inv b] obtain p where "deref s r = Some p" by blast
  from ConnectPlayer_registered[OF b this] inv show ?thesis by simp
qed

lemma connected_players_store [simp]: "connected_players (store r p s) = connected_players s"
  by (simp add: store_def)

lemma player_lost_store [simp]: "player_lost (store r p s) = player_lost s"
  by (simp add: store_def)

lemma registry_inv_player_disconnect:
  assumes inv: "registry_inv s"
  shows "registry_inv (player_disconnect r s)"
proof (cases "deref s r")
  case None
  with inv show ?thesis by (simp add: player_disconnect_def)
next
  case (Some p)
  show ?thesis
  proof (cases "connected p")
    case False
    with Some inv show ?thesis by (simp add: player_disconnect_unconnected)
  next
    case True
    let ?q = "p\<lparr>connected := False, exported := False\<rparr>"
    have len: "r < length (objects s)" using Some by (rule deref_Some_length)
    have d: "deref (store r ?q s) r' = (if r' = r then Some ?q else deref s r')" for r'
      using len by (simp add: deref_store)
    show ?thesis
    proof (cases "disconnect_cb p")
      case None
      have "registry_inv (store r ?q s)"
      proof (rule registry_invI)
        fix n r0 assume "connected_players (store r ?q s) n = Some (Some r0)"
        then have b: "connected_players s n = Some (Some r0)" by simp
        from registry_inv_bound[OF inv b] obtain p0 where
          p0: "deref s r0 = Some p0" "connected p0" "name p0 = n"
              "disconnect_cb p0 = Some Player_lost_cb" by blast
        with Some None have "r0 \<noteq> r" by auto
        with p0 show "\<exists>p. deref (store r ?q s) r0 = Some p \<and> connected p \<and> name p = n
                \<and> disconnect_cb p = Some Player_lost_cb" by (simp add: d)
      next
        fix r0 p0
        assume dr: "deref (store r ?q s) r0 = Some p0" and c: "connected p0"
          and cb: "disconnect_cb p0 \<noteq> None"
        then have "r0 \<noteq> r" by (auto simp: d)
        with dr have "deref s r0 = Some p0" by (simp add: d)
        from registry_inv_owner[OF inv this c cb]
        show "connected_players (store r ?q s) (name p0) = Some (Some r0)" by simp
      qed
      with Some True None show ?thesis by (simp add: player_disconnect_connected)
    next
      case cb: (Some cb)
      with Some True inv have own: "connected_players s (name p) = Some (Some r)"
        by (auto intro: registry_inv_owner)
      let ?s' = "player_lost_cb ?q (store r ?q s)"
      have m: "connected_players ?s' = (connected_players s)(name p := None)"
        using own by (simp add: player_lost_cb_def PlayerLost_def domI)
      have "registry_inv ?s'"
      proof (rule registry_invI)
        fix n r0 assume "connected_players ?s' n = Some (Some r0)"
        then have n: "n \<noteq> name p" and b: "connected_players s n = Some (Some r0)"
          by (auto simp: m split: if_splits)
        from registry_inv_bound[OF inv b] obtain p0 where
          p0: "deref s r0 = Some p0" "connected p0" "name p0 = n"
              "disconnect_cb p0 = Some Player_lost_cb" by blast
        with Some n have "r0 \<noteq> r" by auto
        with p0 show "\<exists>p. deref ?s' r0 = Some p \<and> connected p \<and> name p = n
                \<and> disconnect_cb p = Some Player_lost_cb" by (simp add: d)
      next
        fix r0 p0
        assume dr: "deref ?s' r0 = Some p0" and c: "connected p0"
          and cb0: "disconnect_cb p0 \<noteq> None"
        then have ne: "r0 \<noteq> r" by (auto simp: d)
        with dr have "deref s r0 = Some p0" by (simp add: d)
        from registry_inv_owner[OF inv this c cb0]
        have o: "connected_players s (name p0) = Some (Some r0)" .
        with own ne have "name p0 \<noteq> name p" by auto
        with o show "connected_players ?s' (name p0) = Some (Some r0)" by (simp add: m)
      qed
      with Some True cb show ?thesis by (simp add: player_disconnect_connected)
    qed
  qed
qed

lemma registry_inv_step:
  "registry_inv s \<Longrightarrow> as_asked a s \<Longrightarrow> registry_inv (step a s)"
  by (cases a)
     (simp_all add: registry_inv_new_player registry_inv_ConnectPlayer
        registry_inv_player_disconnect)

lemma registry_inv_run:
  "registry_inv s \<Longrightarrow> named_as_asked acts s \<Longrightarrow> registry_inv (run_actions acts s)"
  by (induction acts arbitrary: s) (simp_all add: registry_inv_step)

text \<open>Losing a registered session.\<close>

lemma lose_registered:
  assumes inv: "registry_inv s" and b: "connected_players s n = Some (Some r)"
  shows "connected_players (player_disconnect r s) = (connected_players s)(n := None)
         \<and> player_lost (player_disconnect r s) = player_lost s @ [n]"
proof -
  from registry_inv_bound[OF inv b] obtain p where
    p: "deref s r = Some p" "connected p" "name p = n" "disconnect_cb p = Some Player_lost_cb"
    by blast
  with b show ?thesis
    by (simp add: player_disconnect_connected player_lost_cb_def PlayerLost_def domI)
qed

lemma stays_disconnected:
  assumes inv: "registry_inv s" and "as_asked a s"
    and d: "deref s r = Some p" and c: "\<not> connected p"
  shows "\<exists>p'. deref (step a s) r = Some p' \<and> \<not> connected p'"
proof (cases a)
  case (New_player nm)
  with d c deref_Some_length[OF d] show ?thesis by (simp add: deref_new_player)
next
  case (Disconnect r')
  show ?thesis
  proof (cases "deref s r'")
    case None
    with Disconnect d c show ?thesis by (simp add: player_disconnect_def)
  next
    case (Some p')
    show ?thesis
    proof (cases "connected p'")
      case False
      with Some Disconnect d c show ?thesis by (simp add: player_disconnect_unconnected)
    next
      case True
      with Some d c have "r' \<noteq> r" by auto
      with Some True Disconnect d c deref_Some_length[OF Some] show ?thesis
        by (cases "disconnect_cb p'") (simp_all add: player_disconnect_connected deref_store)
    qed
  qed
next
  case (Connect drv nm)
  show ?thesis
  proof (cases "connected_players s nm = None \<or> connected_players s nm = Some None")
    case False
    then obtain r0 where b: "connected_players s nm = Some (Some r0)"
      by (cases "connected_players s nm") auto
    from registry_inv_bound[OF inv b] obtain p0 where "deref s r0 = Some p0" by blast
    from ConnectPlayer_registered[OF b this] Connect d c show ?thesis by simp
  next
    case True
    note un = this
    show ?thesis
    proof (cases "drv nm")
      case (Raises e)
      with Connect d c show ?thesis by (simp add: ConnectPlayer_unregistered[OF un])
    next
      case (Returns x)
      show ?thesis
      proof (cases x)
        case None
        with Returns Connect d c show ?thesis by (simp add: ConnectPlayer_unregistered[OF un])
      next
        case (Some a0)
        show ?thesis
        proof (cases "deref s a0")
          case None
          with Returns Some Connect d c show ?thesis
            by (simp add: ConnectPlayer_unregistered[OF un])
        next
          case player: (Some player)
          show ?thesis
          proof (cases "connected player")
            case False
            with Returns Some player Connect d c show ?thesis
              by (simp add: ConnectPlayer_unregistered[OF un])
          next
            case True
            with player d c have "a0 \<noteq> r" by auto
            with Returns Some player True Connect d c show ?thesis
              by (auto simp: ConnectPlayer_unregistered[OF un] deref_def split: if_splits)
          qed
        qed
      qed
    qed
  qed
qed

lemma lost_by_disconnected:
  "deref s r = Some p \<Longrightarrow> \<not> connected p \<Longrightarrow> lost_by r a s = []"
  by (cases a) (simp_all add: player_disconnect_unconnected)

lemma losses_disconnected:
  "registry_inv s \<Longrightarrow> named_as_asked acts s \<Longrightarrow> deref s r = Some p \<Longrightarrow> \<not> connected p \<Longrightarrow>
     losses r acts s = []"
proof (induction acts arbitrary: s p)
  case Nil
  then show ?case by simp
next
  case (Cons a acts)
  from Cons.prems have inv': "registry_inv (step a s)" and n': "named_as_asked acts (step a s)"
    by (simp_all add: registry_inv_step)
  from stays_disconnected[OF Cons.prems(1) _ Cons.prems(3,4), of a] Cons.prems(2)
  obtain p' where "deref (step a s) r = Some p'" "\<not> connected p'" by auto
  from Cons.IH[OF inv' n' this] lost_by_disconnected[OF Cons.prems(3,4)]
  show ?case by simp
qed

lemma player_disconnect_lost_le1:
  "length (player_lost (player_disconnect r s)) - length (player_lost s) \<le> 1"
proof (cases "deref s r")
  case None
  then show ?thesis by (simp add: player_disconnect_def)
next
  case (Some p)
  then show ?thesis
    by (cases "connected p"; cases "disconnect_cb p")
       (simp_all add: player_disconnect_unconnected player_disconnect_connected
          player_lost_cb_def PlayerLost_def)
qed

lemma lost_by_le1: "length (lost_by r a s) \<le> 1"
proof (cases a)
  case (Disconnect r')
  then show ?thesis
    using player_disconnect_lost_le1[of r s] by (cases "r' = r") simp_all
qed simp_all

lemma losses_at_most_once:
  "registry_inv s \<Longrightarrow> named_as_asked acts s \<Longrightarrow> length (losses r acts s) \<le> 1"
proof (induction acts arbitrary: s)
  case Nil
  then show ?case by simp
next
  case (Cons a acts)
  from Cons.prems have inv': "registry_inv (step a s)" and n': "named_as_asked acts (step a s)"
    by (simp_all add: registry_inv_step)
  show ?case
  proof (cases "lost_by r a s = []")
    case True
    with Cons.IH[OF inv' n'] show ?thesis by simp
  next
    case False
    then have a: "a = Disconnect r" by (cases a) (auto split: if_splits)
    from False a obtain p where p: "deref s r = Some p"
      by (cases "deref s r") (auto simp: player_disconnect_def)
    from False a p have c: "connected p"
      by (cases "connected p") (auto simp: player_disconnect_unconnected)
    from player_disconnect_deref[OF p c] a
    have "deref (step a s) r = Some (p\<lparr>connected := False, exported := False\<rparr>)" by simp
    from losses_disconnected[OF inv' n' this] have "losses r acts (step a s) = []" by simp
    with lost_by_le1[of r a s] show ?thesis by simp
  qed
qed

text \<open>
  Claim C8. Take any run of a registry from its construction in which every session
  the driver returns bears the name it was asked for. In the state the run reaches, a
  name is bound only to a session that exists, is connected and bears that name; when
  such a session disconnects, its entry is removed and \<^verbatim>\<open>PlayerLost\<close> is emitted for
  that name, once. Over the whole run, the calls of \<^verbatim>\<open>disconnect\<close> on any one session
  emit at most one \<^verbatim>\<open>PlayerLost\<close>.
\<close>

theorem registry_holds_live_sessions_only:
  assumes "named_as_asked acts (BasePlayerProxy prefix cls pn)"
  shows "(connected_players (run_actions acts (BasePlayerProxy prefix cls pn)) n = Some (Some r) \<longrightarrow>
            (\<exists>p. deref (run_actions acts (BasePlayerProxy prefix cls pn)) r = Some p
                 \<and> connected p \<and> name p = n)
            \<and> connected_players (player_disconnect r (run_actions acts (BasePlayerProxy prefix cls pn)))
                = (connected_players (run_actions acts (BasePlayerProxy prefix cls pn)))(n := None)
            \<and> player_lost (player_disconnect r (run_actions acts (BasePlayerProxy prefix cls pn)))
                = player_lost (run_actions acts (BasePlayerProxy prefix cls pn)) @ [n])
         \<and> length (losses r' acts (BasePlayerProxy prefix cls pn)) \<le> 1"
proof -
  let ?s = "run_actions acts (BasePlayerProxy prefix cls pn)"
  have inv: "registry_inv ?s"
    using registry_inv_init assms by (rule registry_inv_run)
  have "length (losses r' acts (BasePlayerProxy prefix cls pn)) \<le> 1"
    using registry_inv_init assms by (rule losses_at_most_once)
  moreover have "(\<exists>p. deref ?s r = Some p \<and> connected p \<and> name p = n)
            \<and> connected_players (player_disconnect r ?s) = (connected_players ?s)(n := None)
            \<and> player_lost (player_disconnect r ?s) = player_lost ?s @ [n]"
    if b: "connected_players ?s n = Some (Some r)"
    using registry_inv_bound[OF inv b] lose_registered[OF inv b] by blast
  ultimately show ?thesis by blast
qed

lemma vlc_run:
  "run_actions [New_player ''vlc'', Connect (\<lambda>nm. Returns (Some 0)) ''vlc'']
     (BasePlayerProxy ''/'' ''Proxy'' ''px'') =
   \<lparr>path_prefix = ''/'', cls_name = ''Proxy'', proxy_name = ''px'',
    connected_players = [''vlc'' \<mapsto> Some 0],
    objects = [set_disconnect_cb Player_lost_cb (BasePlayer ''/'' ''px'' ''vlc'')],
    player_lost = [], driver_calls = [''vlc'']\<rparr>"
  by (simp add: BasePlayerProxy_def new_player_def ConnectPlayer_def setdefault_def deref_def
      store_def Let_def BasePlayer_def set_disconnect_cb_def)

theorem registry_holds_live_sessions_only_witness:
  "named_as_asked [New_player ''vlc'', Connect (\<lambda>nm. Returns (Some 0)) ''vlc'']
     (BasePlayerProxy ''/'' ''Proxy'' ''px'')
   \<and> connected_players
        (run_actions [New_player ''vlc'', Connect (\<lambda>nm. Returns (Some 0)) ''vlc'']
          (BasePlayerProxy ''/'' ''Proxy'' ''px'')) ''vlc'' = Some (Some 0)
   \<and> player_lost (player_disconnect 0
        (run_actions [New_player ''vlc'', Connect (\<lambda>nm. Returns (Some 0)) ''vlc'']
          (BasePlayerProxy ''/'' ''Proxy'' ''px''))) = [''vlc'']
   \<and> connected_players (player_disconnect 0
        (run_actions [New_player ''vlc'', Connect (\<lambda>nm. Returns (Some 0)) ''vlc'']
          (BasePlayerProxy ''/'' ''Proxy'' ''px''))) ''vlc'' = None"
proof -
  let ?acts = "[New_player ''vlc'', Connect (\<lambda>nm. Returns (Some 0)) ''vlc'']"
  let ?s0 = "BasePlayerProxy ''/'' ''Proxy'' ''px''"
  have h: "named_as_asked ?acts ?s0"
    by (simp add: BasePlayerProxy_def new_player_def deref_def BasePlayer_def)
  have b: "connected_players (run_actions ?acts ?s0) ''vlc'' = Some (Some 0)"
    by (subst vlc_run) simp
  have l: "player_lost (run_actions ?acts ?s0) = []"
    by (subst vlc_run) simp
  from registry_holds_live_sessions_only [OF h, of "''vlc''" 0 0] b l
  have "connected_players (player_disconnect 0 (run_actions ?acts ?s0))
          = (connected_players (run_actions ?acts ?s0))(''vlc'' := None)"
    and "player_lost (player_disconnect 0 (run_actions ?acts ?s0)) = [''vlc'']"
    by simp_all
  with h b show ?thesis by simp
qed

text \<open>
  A driver that, asked for one name, returns a session built under another breaks the
  agreement: the callback removes the entry under the name of the session, finds none,
  and the registry keeps the dead session under the name it was asked for.
\<close>

lemma misnamed_session_stays_registered:
  "\<not> named_as_asked [New_player ''b'', Connect (\<lambda>nm. Returns (Some 0)) ''a'']
       (BasePlayerProxy ''/'' ''Proxy'' ''px'')
   \<and> connected_players
        (run_actions [New_player ''b'', Connect (\<lambda>nm. Returns (Some 0)) ''a'', Disconnect 0]
          (BasePlayerProxy ''/'' ''Proxy'' ''px'')) ''a'' = Some (Some 0)
   \<and> map_option connected (deref
        (run_actions [New_player ''b'', Connect (\<lambda>nm. Returns (Some 0)) ''a'', Disconnect 0]
          (BasePlayerProxy ''/'' ''Proxy'' ''px'')) 0) = Some False
   \<and> player_lost
        (run_actions [New_player ''b'', Connect (\<lambda>nm. Returns (Some 0)) ''a'', Disconnect 0]
          (BasePlayerProxy ''/'' ''Proxy'' ''px'')) = []"
  by (simp add: BasePlayerProxy_def new_player_def ConnectPlayer_def setdefault_def deref_def
      store_def BasePlayer_def set_disconnect_cb_def player_disconnect_def disconnect_def
      player_lost_cb_def Let_def)

lemma session_of_Some:
  "session_of s nm = Some p0 \<Longrightarrow> \<exists>r. connected_players s nm = Some (Some r) \<and> deref s r = Some p0"
  by (auto simp: session_of_def split: option.splits)

lemma deref_connected_players_fun [simp]:
  "deref (s\<lparr>connected_players := m\<rparr>) = deref s"
  by (rule ext) simp

text \<open>\<^verbatim>\<open>ConnectPlayer\<close> for a name that has no session.\<close>

lemma ConnectPlayer_no_session:
  assumes "session_of s nm = None"
  shows "ConnectPlayer drv nm s =
     (case drv nm of
        Raises e \<Rightarrow>
          (Inl (if is_TypeError e then BaseError (cannot_instantiate s nm) (Some e) else e),
           s\<lparr>connected_players := snd (setdefault nm None (connected_players s)),
             driver_calls := driver_calls s @ [nm]\<rparr>)
      | Returns None \<Rightarrow>
          (Inl (ConnectPlayerError ''%s cannot be connected'' nm),
           s\<lparr>connected_players := snd (setdefault nm None (connected_players s)),
             driver_calls := driver_calls s @ [nm]\<rparr>)
      | Returns (Some a) \<Rightarrow>
          (case deref s a of
             None \<Rightarrow>
               (Inl (ConnectPlayerError ''%s cannot be connected'' nm),
                s\<lparr>connected_players := snd (setdefault nm None (connected_players s)),
                  driver_calls := driver_calls s @ [nm]\<rparr>)
           | Some player \<Rightarrow>
               (if connected player then
                  (Inr (object_path player),
                   s\<lparr>connected_players :=
                       (snd (setdefault nm None (connected_players s)))(nm \<mapsto> Some a),
                     driver_calls := driver_calls s @ [nm],
                     objects := (objects s)[a := set_disconnect_cb Player_lost_cb player]\<rparr>)
                else
                  (Inl (ConnectPlayerError ''%s cannot be connected'' nm),
                   s\<lparr>connected_players := snd (setdefault nm None (connected_players s)),
                     driver_calls := driver_calls s @ [nm]\<rparr>))))"
proof -
  obtain found m where sd: "setdefault nm None (connected_players s) = (found, m)"
    by (cases "setdefault nm None (connected_players s)")
  with found_session[of nm s] assms have f: "Option.bind found (deref s) = None" by simp
  show ?thesis
  proof (cases "drv nm")
    case (Raises e)
    with f show ?thesis by (simp add: ConnectPlayer_def sd cannot_instantiate_def Let_def)
  next
    case (Returns x)
    show ?thesis
    proof (cases x)
      case None
      with Returns f show ?thesis by (simp add: ConnectPlayer_def sd Let_def)
    next
      case (Some a)
      show ?thesis
      proof (cases "deref s a")
        case None
        with Returns Some f show ?thesis by (simp add: ConnectPlayer_def sd Let_def)
      next
        case player: (Some player)
        with Returns Some f show ?thesis
          by (cases "connected player") (simp_all add: ConnectPlayer_def sd store_def Let_def)
      qed
    qed
  qed
qed

text \<open>
  Claim C4. If \<^verbatim>\<open>ConnectPlayer(name)\<close> returns an object path, a second call right
  after it returns the same path and leaves the registry as it is, whatever the driver
  would answer: the driver is not called again. The first call called the driver once
  when the name had no session, and not at all when it had one; so across the two calls
  of a fresh connection the driver is called exactly once.
\<close>

theorem ConnectPlayer_twice_same_handle:
  assumes "ConnectPlayer drv nm s = (Inr path, s1)"
  shows "ConnectPlayer drv' nm s1 = (Inr path, s1)
         \<and> driver_calls s1 = driver_calls s @ (if session_of s nm = None then [nm] else [])"
proof (cases "session_of s nm")
  case (Some p0)
  then obtain r where r: "connected_players s nm = Some (Some r)" "deref s r = Some p0"
    by (auto dest: session_of_Some)
  from assms ConnectPlayer_registered[OF r, of drv]
  have "path = object_path p0" "s1 = s" by simp_all
  with Some ConnectPlayer_registered[OF r, of drv'] show ?thesis by simp
next
  case None
  note ns = ConnectPlayer_no_session[OF None, of drv]
  from assms ns obtain x where x: "drv nm = Returns x"
    by (cases "drv nm") auto
  with assms ns obtain a where a: "x = Some a" by (cases x) auto
  with assms ns x obtain player where p: "deref s a = Some player"
    by (cases "deref s a") auto
  with assms ns x a have c: "connected player" by (cases "connected player") auto
  from assms ns x a p c have path: "path = object_path player"
    and s1: "s1 = s\<lparr>connected_players :=
                       (snd (setdefault nm None (connected_players s)))(nm \<mapsto> Some a),
                     driver_calls := driver_calls s @ [nm],
                     objects := (objects s)[a := set_disconnect_cb Player_lost_cb player]\<rparr>"
    by simp_all
  have b: "connected_players s1 nm = Some (Some a)" by (simp add: s1)
  have d: "deref s1 a = Some (set_disconnect_cb Player_lost_cb player)"
    using deref_Some_length[OF p] by (simp add: s1 deref_def)
  from ConnectPlayer_registered[OF b d, of drv'] None path s1 show ?thesis by simp
qed

lemma session_of_after_failure:
  assumes "session_of s nm = None"
  shows "session_of (s\<lparr>connected_players := snd (setdefault nm None (connected_players s)),
                       driver_calls := d\<rparr>) = session_of s"
proof
  fix k
  show "session_of (s\<lparr>connected_players := snd (setdefault nm None (connected_players s)),
                       driver_calls := d\<rparr>) k = session_of s k"
    using assms
    by (cases "connected_players s nm")
       (auto simp: session_of_def setdefault_def split: option.splits)
qed

text \<open>
  Claim C5. For a name that has no session: when \<^verbatim>\<open>do_connect_player\<close> raises a
  \<^verbatim>\<open>TypeError\<close>, \<^verbatim>\<open>ConnectPlayer\<close> raises \<^verbatim>\<open>errors.BaseError\<close> with that
  \<^verbatim>\<open>TypeError\<close> as its cause; when it returns \<^verbatim>\<open>None\<close> or a session that is not
  connected, \<^verbatim>\<open>ConnectPlayer\<close> raises \<^verbatim>\<open>ConnectPlayerError\<close>. In both cases the
  driver was called once, no object changed, and every name has the session it had
  before: the name asked for has none (\<^verbatim>\<open>setdefault\<close> has bound it to \<^verbatim>\<open>None\<close>).
\<close>

theorem ConnectPlayer_failure_registers_nothing:
  assumes "session_of s nm = None" and "driver_fails s (drv nm)"
  shows "ConnectPlayer drv nm s =
           (Inl (case drv nm of
                   Raises e \<Rightarrow> BaseError (cannot_instantiate s nm) (Some e)
                 | Returns r \<Rightarrow> ConnectPlayerError ''%s cannot be connected'' nm),
            s\<lparr>connected_players := snd (setdefault nm None (connected_players s)),
              driver_calls := driver_calls s @ [nm]\<rparr>)
         \<and> session_of (snd (ConnectPlayer drv nm s)) = session_of s
         \<and> objects (snd (ConnectPlayer drv nm s)) = objects s"
proof -
  have "ConnectPlayer drv nm s =
           (Inl (case drv nm of
                   Raises e \<Rightarrow> BaseError (cannot_instantiate s nm) (Some e)
                 | Returns r \<Rightarrow> ConnectPlayerError ''%s cannot be connected'' nm),
            s\<lparr>connected_players := snd (setdefault nm None (connected_players s)),
              driver_calls := driver_calls s @ [nm]\<rparr>)"
  proof (cases "drv nm")
    case (Raises e)
    with assms(2) show ?thesis by (simp add: ConnectPlayer_no_session[OF assms(1)])
  next
    case (Returns x)
    show ?thesis
    proof (cases x)
      case None
      with Returns show ?thesis by (simp add: ConnectPlayer_no_session[OF assms(1)])
    next
      case (Some a)
      with Returns assms(2) show ?thesis
        by (cases "deref s a") (simp_all add: ConnectPlayer_no_session[OF assms(1)])
    qed
  qed
  then show ?thesis
    by (simp add: session_of_after_failure[OF assms(1)])
qed

theorem ConnectPlayer_twice_same_handle_witness:
  "ConnectPlayer (\<lambda>nm. Returns (Some 0)) ''vlc''
      (new_player ''vlc'' (BasePlayerProxy ''/'' ''Proxy'' ''px'')) =
     (Inr ''/px/vlc'',
      \<lparr>path_prefix = ''/'', cls_name = ''Proxy'', proxy_name = ''px'',
       connected_players = [''vlc'' \<mapsto> Some 0],
       objects = [set_disconnect_cb Player_lost_cb (BasePlayer ''/'' ''px'' ''vlc'')],
       player_lost = [], driver_calls = [''vlc'']\<rparr>)
   \<and> ConnectPlayer (\<lambda>nm. Raises NotImplementedError) ''vlc''
       \<lparr>path_prefix = ''/'', cls_name = ''Proxy'', proxy_name = ''px'',
        connected_players = [''vlc'' \<mapsto> Some 0],
        objects = [set_disconnect_cb Player_lost_cb (BasePlayer ''/'' ''px'' ''vlc'')],
        player_lost = [], driver_calls = [''vlc'']\<rparr> =
     (Inr ''/px/vlc'',
      \<lparr>path_prefix = ''/'', cls_name = ''Proxy'', proxy_name = ''px'',
       connected_players = [''vlc'' \<mapsto> Some 0],
       objects = [set_disconnect_cb Player_lost_cb (BasePlayer ''/'' ''px'' ''vlc'')],
       player_lost = [], driver_calls = [''vlc'']\<rparr>)"
proof -
  have h: "ConnectPlayer (\<lambda>nm. Returns (Some 0)) ''vlc''
      (new_player ''vlc'' (BasePlayerProxy ''/'' ''Proxy'' ''px'')) =
     (Inr ''/px/vlc'',
      \<lparr>path_prefix = ''/'', cls_name = ''Proxy'', proxy_name = ''px'',
       connected_players = [''vlc'' \<mapsto> Some 0],
       objects = [set_disconnect_cb Player_lost_cb (BasePlayer ''/'' ''px'' ''vlc'')],
       player_lost = [], driver_calls = [''vlc'']\<rparr>)"
    by (simp add: BasePlayerProxy_def new_player_def ConnectPlayer_def setdefault_def deref_def
      store_def Let_def BasePlayer_def set_disconnect_cb_def)
  from ConnectPlayer_twice_same_handle [OF h, of "\<lambda>nm. Raises NotImplementedError"] h
  show ?thesis by simp
qed

theorem ConnectPlayer_failure_registers_nothing_witness:
  "session_of (BasePlayerProxy ''/'' ''Proxy'' ''px'') ''vlc'' = None
   \<and> driver_fails (BasePlayerProxy ''/'' ''Proxy'' ''px'') (Raises (TypeError ''bad''))
   \<and> driver_fails (BasePlayerProxy ''/'' ''Proxy'' ''px'') (Returns None)
   \<and> fst (ConnectPlayer (\<lambda>nm. Raises (TypeError ''bad'')) ''vlc'' (BasePlayerProxy ''/'' ''Proxy'' ''px''))
       = Inl (BaseError ''Proxy cannot instantiate Player[px, vlc]'' (Some (TypeError ''bad'')))
   \<and> fst (ConnectPlayer (\<lambda>nm. Returns None) ''vlc'' (BasePlayerProxy ''/'' ''Proxy'' ''px''))
       = Inl (ConnectPlayerError ''%s cannot be connected'' ''vlc'')
   \<and> session_of (snd (ConnectPlayer (\<lambda>nm. Raises (TypeError ''bad'')) ''vlc''
         (BasePlayerProxy ''/'' ''Proxy'' ''px''))) ''vlc'' = None"
proof -
  let ?s = "BasePlayerProxy ''/'' ''Proxy'' ''px''"
  have h1: "session_of ?s ''vlc'' = None"
    by (simp add: session_of_def BasePlayerProxy_def)
  have h2: "driver_fails ?s ((\<lambda>nm. Raises (TypeError ''bad'')) ''vlc'')"
    by (simp add: is_TypeError_def)
  have h3: "driver_fails ?s ((\<lambda>nm. Returns None) ''vlc'')"
    by simp
  from ConnectPlayer_failure_registers_nothing [OF h1 h2]
       ConnectPlayer_failure_registers_nothing [OF h1 h3] h1 h2 h3
  show ?thesis
    by (simp add: cannot_instantiate_def BasePlayerProxy_def session_of_def setdefault_def)
qed

end
